theory Spec2Isabelle
  imports Complex_Main "HOL-Library.Signed_Division" "HOL-Library.Sublist" "HOL-Library.Log_Nat"
begin

section \<open>Numeric conventions of the embedding\<close>

text \<open>
  The C++ sources compute with \<^verbatim>\<open>float\<close>, \<^verbatim>\<open>double\<close>, \<^verbatim>\<open>int\<close>, \<^verbatim>\<open>int64_t\<close> and
  \<^verbatim>\<open>size_t\<close>. The embedding reads them as follows.

  \<^item> \<^verbatim>\<open>float\<close> and \<^verbatim>\<open>double\<close> values are \<^typ>\<open>real\<close> numbers. In the resampler every
    operation is followed by its IEEE 754 rounding (\<open>fl32\<close>, \<open>fl64\<close> below). The detector
    looks at a frame only through its RMS and the two thresholds, and the RMS is written
    with exact arithmetic. Infinities and NaN are outside the model.
  \<^item> \<^verbatim>\<open>size_t\<close> values (lengths, offsets) are \<^typ>\<open>nat\<close>; no length reaches \<open>2^64\<close>.
  \<^item> \<^verbatim>\<open>int\<close> and \<^verbatim>\<open>int64_t\<close> are \<^typ>\<open>int\<close>. Signed overflow is undefined in C++ and is
    outside the model. Integer division \<^verbatim>\<open>/\<close> truncates towards zero, which is \<open>sdiv\<close>.
  \<^item> Member names lose the trailing underscore of the source (\<^verbatim>\<open>samples_\<close> is \<open>samples\<close>),
    which an Isabelle name cannot end with.
  \<^item> The narrowing \<^verbatim>\<open>static_cast<int>(size_t)\<close> and the widening
    \<^verbatim>\<open>static_cast<size_t>(int)\<close> are written out with their wrap-around.
\<close>

type_synonym sample = real

definition static_cast_int :: "nat \<Rightarrow> int" where
  "static_cast_int n = signed_take_bit 31 (int n)"

definition static_cast_size_t :: "int \<Rightarrow> nat" where
  "static_cast_size_t i = nat (i mod 2 ^ 64)"

section \<open>ring\_buffer.h\<close>

text \<open>
  The buffer owns one vector of samples. Every operation runs under the buffer's mutex, so
  each is one atomic step on the state; the reserved capacity is not observable and is not
  part of the state.
\<close>

record RingBuffer =
  samples :: "sample list"

definition RingBuffer_init :: RingBuffer where
  "RingBuffer_init = \<lparr>samples = []\<rparr>"

definition append_rb :: "RingBuffer \<Rightarrow> sample list \<Rightarrow> RingBuffer" where
  "append_rb rb data = rb\<lparr>samples := samples rb @ data\<rparr>"

definition drain :: "RingBuffer \<Rightarrow> sample list \<times> RingBuffer" where
  "drain rb = (samples rb, rb\<lparr>samples := []\<rparr>)"

definition count_rb :: "RingBuffer \<Rightarrow> nat" where
  "count_rb rb = length (samples rb)"

section \<open>vad.h, vad.cpp\<close>

datatype State = silence | speech_onset | speaking | speech_offset

record VoiceActivityDetector =
  state :: State
  is_speaking :: bool
  is_enabled :: bool
  speech_threshold :: real
  silence_threshold :: real
  min_speech_duration_ms :: int
  min_silence_duration_ms :: int
  pre_speech_padding_ms :: int
  post_speech_padding_ms :: int
  active_sample_rate :: int
  pre_speech_buf :: "sample list"
  onset_buf :: "sample list"
  post_speech_buf :: "sample list"
  speech_sample_count :: int
  silence_sample_count :: int

definition pre_speech_max_samples :: "VoiceActivityDetector \<Rightarrow> int" where
  "pre_speech_max_samples v = (pre_speech_padding_ms v * active_sample_rate v) sdiv 1000"

definition post_speech_max_samples :: "VoiceActivityDetector \<Rightarrow> int" where
  "post_speech_max_samples v = (post_speech_padding_ms v * active_sample_rate v) sdiv 1000"

definition min_speech_samples :: "VoiceActivityDetector \<Rightarrow> int" where
  "min_speech_samples v = (min_speech_duration_ms v * active_sample_rate v) sdiv 1000"

definition min_silence_samples :: "VoiceActivityDetector \<Rightarrow> int" where
  "min_silence_samples v = (min_silence_duration_ms v * active_sample_rate v) sdiv 1000"

definition compute_rms :: "sample list \<Rightarrow> real" where
  "compute_rms data =
     (if length data = 0 then 0
      else sqrt (foldl (\<lambda>sum x. sum + x * x) 0 data / real (length data)))"

definition reset :: "VoiceActivityDetector \<Rightarrow> VoiceActivityDetector" where
  "reset v = v\<lparr>state := silence, is_speaking := False, pre_speech_buf := [],
               onset_buf := [], post_speech_buf := [],
               speech_sample_count := 0, silence_sample_count := 0\<rparr>"

text \<open>
  \<^verbatim>\<open>append_to_pre_speech\<close> appends and then erases the oldest \<open>size - max\<close> samples when the
  window is over its maximum. With a negative maximum the erased range would end past the
  vector (undefined in C++); the model then drops everything, and the theorems about this
  path assume a maximum that is not negative.
\<close>

definition append_to_pre_speech :: "VoiceActivityDetector \<Rightarrow> sample list \<Rightarrow> VoiceActivityDetector" where
  "append_to_pre_speech v data =
     (let buf = pre_speech_buf v @ data;
          max = pre_speech_max_samples v
      in if static_cast_int (length buf) > max
         then v\<lparr>pre_speech_buf := drop (nat (int (length buf) - max)) buf\<rparr>
         else v\<lparr>pre_speech_buf := buf\<rparr>)"

text \<open>
  \<^verbatim>\<open>process_frame\<close> mutates the detector and appends to the caller's output vector; the
  model returns both. Its caller \<^verbatim>\<open>process\<close> returns the input as it is when \<open>is_enabled\<close>
  is false, and otherwise stores the sample rate in \<open>active_sample_rate\<close> and hands the
  input to \<^verbatim>\<open>process_frame\<close> in frames of 30 ms, so \<^verbatim>\<open>process_frame\<close> runs on an enabled
  detector only.
\<close>

definition process_frame ::
  "VoiceActivityDetector \<Rightarrow> sample list \<Rightarrow> sample list \<Rightarrow> VoiceActivityDetector \<times> sample list" where
  "process_frame v frame output =
     (let rms = compute_rms frame; len = length frame in
      case state v of
        silence \<Rightarrow>
          if rms \<ge> speech_threshold v
          then (v\<lparr>state := speech_onset,
                   speech_sample_count := static_cast_int len,
                   onset_buf := frame\<rparr>, output)
          else (append_to_pre_speech v frame, output)
      | speech_onset \<Rightarrow>
          if rms \<ge> speech_threshold v
          then (let v1 = v\<lparr>speech_sample_count := speech_sample_count v + static_cast_int len,
                            onset_buf := onset_buf v @ frame\<rparr>
                in if speech_sample_count v1 \<ge> min_speech_samples v1
                   then (v1\<lparr>state := speaking, is_speaking := True,
                             pre_speech_buf := [], onset_buf := []\<rparr>,
                         output @ pre_speech_buf v1 @ onset_buf v1)
                   else (v1, output))
          else (let v1 = append_to_pre_speech v (onset_buf v);
                    v2 = append_to_pre_speech v1 frame
                in (v2\<lparr>onset_buf := [], speech_sample_count := 0, state := silence\<rparr>, output))
      | speaking \<Rightarrow>
          if rms < silence_threshold v
          then (v\<lparr>state := speech_offset,
                   silence_sample_count := static_cast_int len,
                   post_speech_buf := frame\<rparr>, output)
          else (v, output @ frame)
      | speech_offset \<Rightarrow>
          if rms < silence_threshold v
          then (let v1 = v\<lparr>silence_sample_count := silence_sample_count v + static_cast_int len,
                            post_speech_buf := post_speech_buf v @ frame\<rparr>
                in if silence_sample_count v1 \<ge> min_silence_samples v1
                   then (let padding = min (static_cast_size_t (post_speech_max_samples v1))
                                           (length (post_speech_buf v1))
                         in (v1\<lparr>post_speech_buf := [], silence_sample_count := 0,
                                 state := silence, is_speaking := False,
                                 pre_speech_buf := []\<rparr>,
                             output @ take padding (post_speech_buf v1)))
                   else (v1, output))
          else (v\<lparr>post_speech_buf := [], silence_sample_count := 0, state := speaking\<rparr>,
                output @ post_speech_buf v @ frame))"

text \<open>The detector as the in-class initialisers of \<^verbatim>\<open>vad.h\<close> construct it.\<close>

definition VoiceActivityDetector_init :: VoiceActivityDetector where
  "VoiceActivityDetector_init =
     \<lparr>state = silence, is_speaking = False, is_enabled = True,
      speech_threshold = 7 / 1000, silence_threshold = 3 / 1000,
      min_speech_duration_ms = 60, min_silence_duration_ms = 600,
      pre_speech_padding_ms = 200, post_speech_padding_ms = 300,
      active_sample_rate = 16000,
      pre_speech_buf = [], onset_buf = [], post_speech_buf = [],
      speech_sample_count = 0, silence_sample_count = 0\<rparr>"

text \<open>A run of frames through \<open>process_frame\<close>, in arrival order.\<close>

fun process_frames ::
  "VoiceActivityDetector \<Rightarrow> sample list list \<Rightarrow> sample list \<Rightarrow> VoiceActivityDetector \<times> sample list" where
  "process_frames v [] output = (v, output)"
| "process_frames v (frame # frames) output =
     process_frames (fst (process_frame v frame output)) frames (snd (process_frame v frame output))"

text \<open>
  A frame is in the hysteresis band of a detector when its RMS lies strictly between the
  two thresholds. \<open>band_state\<close> is the state a detector is in after such a frame, as a
  function of the state it was in.
\<close>

definition in_band :: "VoiceActivityDetector \<Rightarrow> sample list \<Rightarrow> bool" where
  "in_band v frame = (silence_threshold v < compute_rms frame \<and> compute_rms frame < speech_threshold v)"

fun band_state :: "State \<Rightarrow> State" where
  "band_state silence = silence"
| "band_state speech_onset = silence"
| "band_state speaking = speaking"
| "band_state speech_offset = speaking"

section \<open>Floating-point rounding\<close>

text \<open>
  Round to nearest, ties to even, to \<open>p\<close> significant bits with least exponent \<open>emin\<close>:
  \<open>p = 53\<close>, \<open>emin = -1022\<close> for \<^verbatim>\<open>double\<close> and \<open>p = 24\<close>, \<open>emin = -126\<close> for \<^verbatim>\<open>float\<close>.
  \<open>binade a\<close> is the exponent \<open>e\<close> with \<open>2^e \<le> a < 2^(e+1)\<close> of a positive \<open>a\<close>, and a number
  in that binade is rounded to a multiple of \<open>2^(e-p+1)\<close>; below \<open>2^emin\<close>, in the subnormal
  range, to a multiple of \<open>2^(emin-p+1)\<close>. The exponent is not bounded above: a result
  beyond the largest finite number, infinities and NaN are outside the model.
\<close>

definition pow2 :: "int \<Rightarrow> real" where
  "pow2 s = (if 0 \<le> s then 2 ^ nat s else 1 / 2 ^ nat (- s))"

definition binade :: "real \<Rightarrow> int" where
  "binade a = (if 1 \<le> a then bitlen \<lfloor>a\<rfloor> - 1 else - bitlen (\<lceil>1 / a\<rceil> - 1))"

definition round_even :: "real \<Rightarrow> int" where
  "round_even y =
     (if y - of_int \<lfloor>y\<rfloor> < 1 / 2 then \<lfloor>y\<rfloor>
      else if 1 / 2 < y - of_int \<lfloor>y\<rfloor> then \<lfloor>y\<rfloor> + 1
      else if even \<lfloor>y\<rfloor> then \<lfloor>y\<rfloor> else \<lfloor>y\<rfloor> + 1)"

definition fl :: "int \<Rightarrow> int \<Rightarrow> real \<Rightarrow> real" where
  "fl p emin x =
     (if x = 0 then 0
      else of_int (round_even (x / pow2 (max (binade \<bar>x\<bar>) emin - p + 1)))
             * pow2 (max (binade \<bar>x\<bar>) emin - p + 1))"

definition fl64 :: "real \<Rightarrow> real" where
  "fl64 x = fl 53 (- 1022) x"

definition fl32 :: "real \<Rightarrow> real" where
  "fl32 x = fl 24 (- 126) x"

section \<open>audio\_engine.cpp: the resampler\<close>

text \<open>
  \<^verbatim>\<open>AudioEngine::resample(input, from, to)\<close>. The parameters are named \<open>from_rate\<close> and
  \<open>to_rate\<close> here. The ratio, the output count and the source index are computed in
  \<^verbatim>\<open>double\<close>; the fraction is cast to \<^verbatim>\<open>float\<close>, and the interpolation is computed in
  \<^verbatim>\<open>float\<close>, each product and the sum rounded on its own. The conversions of
  \<^verbatim>\<open>input.size()\<close>, \<open>i\<close> and \<open>idx0\<close> to \<^verbatim>\<open>double\<close> round as well (they are exact below
  \<open>2^53\<close>). \<^verbatim>\<open>static_cast<size_t>\<close> of a double truncates, which is the floor of a double
  that is not negative; of a double that is negative, infinite or \<open>2^64\<close> and more the
  behaviour is undefined, and so is \<open>input[idx0]\<close> past the end of the input. The
  theorems about \<open>resample\<close> are stated where the ratio is positive and the output count
  is below \<open>2^64\<close>.
\<close>

definition resample :: "sample list \<Rightarrow> real \<Rightarrow> real \<Rightarrow> sample list" where
  "resample input from_rate to_rate =
     (if from_rate = to_rate \<or> input = [] then input
      else let ratio = fl64 (from_rate / to_rate);
               out_count = nat \<lfloor>fl64 (fl64 (real (length input)) / ratio)\<rfloor>
           in if out_count = 0 then []
              else map (\<lambda>i. let src_idx = fl64 (fl64 (real i) * ratio);
                                idx0 = nat \<lfloor>src_idx\<rfloor>;
                                frac = fl32 (fl64 (src_idx - fl64 (real idx0)));
                                idx1 = min (idx0 + 1) (length input - 1)
                            in fl32 (fl32 (input ! idx0 * fl32 (1 - frac))
                                     + fl32 (input ! idx1 * frac)))
                       [0..<out_count])"

section \<open>transcription\_result.h\<close>

text \<open>The member \<^verbatim>\<open>text\<close> of a segment is \<open>seg_text\<close>: \<open>text\<close> is a keyword of Isabelle.\<close>

record TranscriptionSegment =
  seg_text :: string
  start_time :: int
  end_time :: int

record TranscriptionResult =
  segments :: "TranscriptionSegment list"
  audio_duration_ms :: real
  transcription_time_ms :: real
  model_name :: string

text \<open>The value-initialised result that \<^verbatim>\<open>return {}\<close> produces.\<close>

definition empty_result :: TranscriptionResult where
  "empty_result = \<lparr>segments = [], audio_duration_ms = 0, transcription_time_ms = 0,
                    model_name = []\<rparr>"

definition full_text :: "TranscriptionResult \<Rightarrow> string" where
  "full_text r = foldl (\<lambda>out s. out @ seg_text s) [] (segments r)"

definition real_time_factor :: "TranscriptionResult \<Rightarrow> real" where
  "real_time_factor r =
     (if audio_duration_ms r \<le> 0 then 0 else transcription_time_ms r / audio_duration_ms r)"

section \<open>transcription\_pipeline.cpp: text trimming and the hallucination filter\<close>

definition HALLUCINATION_PATTERNS :: "string list" where
  "HALLUCINATION_PATTERNS =
     [''thank you'', ''thanks for watching'', ''thanks for listening'',
      ''please subscribe'', ''like and subscribe'', ''see you next time'',
      ''bye bye'', ''goodbye'', ''the end'']"

text \<open>\<^verbatim>\<open>std::tolower\<close> on an \<^verbatim>\<open>unsigned char\<close> in the C locale: only \<open>A\<close> to \<open>Z\<close> change.\<close>

definition tolower_c :: "char \<Rightarrow> char" where
  "tolower_c c = (if 65 \<le> (of_char c :: nat) \<and> (of_char c :: nat) \<le> 90
                  then char_of ((of_char c :: nat) + 32) else c)"

text \<open>
  The two trimming loops, written three times in the source (in \<^verbatim>\<open>continuous_loop\<close>,
  \<^verbatim>\<open>is_hallucination\<close> and \<^verbatim>\<open>transcribe_and_output\<close>):
  \<^verbatim>\<open>while (!s.empty() && (s.front() == ' ' || s.front() == '\n')) s.erase(s.begin());\<close>
  \<^verbatim>\<open>while (!s.empty() && (s.back() == ' ' || s.back() == '\n')) s.pop_back();\<close>
\<close>

fun erase_front_loop :: "string \<Rightarrow> string" where
  "erase_front_loop [] = []"
| "erase_front_loop (c # cs) =
     (if c = CHR '' '' \<or> c = CHR 0x0A then erase_front_loop cs else c # cs)"

function pop_back_loop :: "string \<Rightarrow> string" where
  "pop_back_loop s =
     (if s \<noteq> [] \<and> (last s = CHR '' '' \<or> last s = CHR 0x0A)
      then pop_back_loop (butlast s) else s)"
  by pat_completeness auto
termination
  by (relation "measure length") auto

declare pop_back_loop.simps [simp del]

text \<open>
  \<^verbatim>\<open>std::string::find(pattern)\<close> from position 0: the first position where the pattern
  occurs, \<^verbatim>\<open>npos\<close> (here \<open>None\<close>) when there is none.
\<close>

fun find_from :: "string \<Rightarrow> string \<Rightarrow> nat \<Rightarrow> nat option" where
  "find_from [] pattern pos = (if pattern = [] then Some pos else None)"
| "find_from (c # cs) pattern pos =
     (if prefix pattern (c # cs) then Some pos else find_from cs pattern (Suc pos))"

definition find_str :: "string \<Rightarrow> string \<Rightarrow> nat option" where
  "find_str s pattern = find_from s pattern 0"

fun pattern_loop :: "string \<Rightarrow> string list \<Rightarrow> bool" where
  "pattern_loop lower [] = False"
| "pattern_loop lower (pattern # rest) =
     (if find_str lower pattern \<noteq> None then True else pattern_loop lower rest)"

definition is_hallucination :: "string \<Rightarrow> bool" where
  "is_hallucination txt =
     (let lower = map tolower_c txt;
          lower = erase_front_loop lower;
          lower = pop_back_loop lower
      in if length lower < 3 then True
         else pattern_loop lower HALLUCINATION_PATTERNS)"

text \<open>
  The filter as the specification words it, with "whitespace" read as the C locale's
  \<^verbatim>\<open>isspace\<close> set (space, tab, line feed, vertical tab, form feed, carriage return), for
  comparison with \<open>is_hallucination\<close>.
\<close>

definition is_whitespace :: "char \<Rightarrow> bool" where
  "is_whitespace c = (c = CHR '' '' \<or> c = CHR 0x09 \<or> c = CHR 0x0A \<or> c = CHR 0x0B
                      \<or> c = CHR 0x0C \<or> c = CHR 0x0D)"

definition trim_whitespace :: "string \<Rightarrow> string" where
  "trim_whitespace s = rev (dropWhile is_whitespace (rev (dropWhile is_whitespace s)))"

definition spec_rejected :: "string \<Rightarrow> bool" where
  "spec_rejected txt =
     (let t = trim_whitespace (map tolower_c txt)
      in length t < 3 \<or> list_ex (\<lambda>p. sublist p t) HALLUCINATION_PATTERNS)"

text \<open>The same with only the two characters the source trims: space and line feed.\<close>

definition is_space_or_newline :: "char \<Rightarrow> bool" where
  "is_space_or_newline c = (c = CHR '' '' \<or> c = CHR 0x0A)"

definition trim_spaces_newlines :: "string \<Rightarrow> string" where
  "trim_spaces_newlines s =
     rev (dropWhile is_space_or_newline (rev (dropWhile is_space_or_newline s)))"

section \<open>The world outside the repository\<close>

text \<open>
  Three things the code talks to are not code of the repository: the whisper library
  (\<^verbatim>\<open>whisper_full\<close> and the segment getters), \<^verbatim>\<open>std::chrono::steady_clock\<close>, and the desktop
  that \<^verbatim>\<open>TextOutput\<close> types or pastes into. They are modelled as a \<open>world\<close>: the log of the
  recognizer calls made so far, the log of the texts handed to \<^verbatim>\<open>TextOutput\<close>, and the
  clock in milliseconds.

  The library is a parameter \<open>W\<close> of every function that reaches it: given the calls made
  so far and the present call, it tells the return code of \<^verbatim>\<open>whisper_full\<close>, the segments
  the getters then report (text, \<open>t0\<close>, \<open>t1\<close>, the times in units of 10 ms) and the time the
  call took. The clock advances during a recognizer call only; the code around it is taken
  as instantaneous.
\<close>

record whisper_call =
  call_samples :: "sample list"
  call_context_prompt :: "string option"
  call_initial_prompt :: "string option"

record whisper_out =
  rc :: int
  out_segments :: "(string \<times> int \<times> int) list"
  took_ms :: real

type_synonym whisper_lib = "whisper_call list \<Rightarrow> whisper_call \<Rightarrow> whisper_out"

record world =
  whisper_log :: "whisper_call list"
  typed :: "string list"
  clock :: real

section \<open>settings.h\<close>

datatype TranscriptionMode = buffered | continuous

text \<open>The members of \<^verbatim>\<open>Settings\<close> that the modelled functions read.\<close>

record Settings =
  initial_prompt :: string
  keep_mic_warm :: bool
  transcription_mode :: TranscriptionMode

section \<open>whisper\_context.cpp\<close>

record WhisperContext =
  wc_settings :: Settings
  wc_model_name :: string

text \<open>
  \<^verbatim>\<open>WhisperContext::transcribe(samples, context_prompt)\<close>: the prompt handed to the library
  is the context prompt, or else the configured initial prompt when that is not empty. The
  metadata is filled in before the return code is looked at.
\<close>

definition WhisperContext_transcribe ::
  "whisper_lib \<Rightarrow> WhisperContext \<Rightarrow> sample list \<Rightarrow> string option \<Rightarrow> world
     \<Rightarrow> TranscriptionResult \<times> world" where
  "WhisperContext_transcribe W wc smpls context_prompt w =
     (let start = clock w;
          prompt = (case context_prompt of
                      Some p \<Rightarrow> Some p
                    | None \<Rightarrow> if initial_prompt (wc_settings wc) \<noteq> []
                              then Some (initial_prompt (wc_settings wc)) else None);
          call = \<lparr>call_samples = smpls, call_context_prompt = context_prompt,
                  call_initial_prompt = prompt\<rparr>;
          out = W (whisper_log w) call;
          w' = w\<lparr>whisper_log := whisper_log w @ [call], clock := clock w + took_ms out\<rparr>;
          elapsed = clock w' - start;
          audio_ms = real (length smpls) / 16;
          tr = \<lparr>segments = [], audio_duration_ms = audio_ms,
                transcription_time_ms = elapsed, model_name = wc_model_name wc\<rparr>
      in if rc out \<noteq> 0 then (tr, w')
         else (tr\<lparr>segments :=
                     map (\<lambda>(txt, t0, t1). \<lparr>seg_text = txt, start_time = t0 * 10, end_time = t1 * 10\<rparr>)
                         (out_segments out)\<rparr>, w'))"

section \<open>performance\_monitor.h\<close>

record PerformanceMonitor =
  perf_last :: TranscriptionResult
  perf_total :: int
  perf_rtf_sum :: real

definition record_perf :: "PerformanceMonitor \<Rightarrow> TranscriptionResult \<Rightarrow> PerformanceMonitor" where
  "record_perf pm r = \<lparr>perf_last = r, perf_total = perf_total pm + 1,
                        perf_rtf_sum = perf_rtf_sum pm + real_time_factor r\<rparr>"

section \<open>audio\_engine.cpp\<close>

text \<open>
  \<open>pa_open\<close> says that the PulseAudio handle \<^verbatim>\<open>pa_\<close> is not null. Whether opening the
  device succeeds is decided outside the program: \<open>prepare\<close> takes the outcome as its
  argument \<open>pa_ok\<close>. The capture thread is not a function of the model; what it does to the
  detector and the buffer between two steps of the other threads appears as a change of
  the \<open>vad\<close> and \<open>buffer\<close> members.
\<close>

record AudioEngine =
  pa_open :: bool
  vad :: VoiceActivityDetector
  buffer :: RingBuffer
  hardware_sr :: real
  running :: bool
  collecting :: bool

definition prepare :: "AudioEngine \<Rightarrow> bool \<Rightarrow> AudioEngine" where
  "prepare a pa_ok =
     (if pa_open a then a
      else if \<not> pa_ok then a
      else a\<lparr>pa_open := True, hardware_sr := 48000, running := True\<rparr>)"

definition AudioEngine_start_recording :: "AudioEngine \<Rightarrow> bool \<Rightarrow> AudioEngine" where
  "AudioEngine_start_recording a pa_ok =
     (let a1 = (if \<not> pa_open a then prepare a pa_ok else a)
      in a1\<lparr>vad := reset (vad a1), buffer := snd (drain (buffer a1)), collecting := True\<rparr>)"

definition AudioEngine_stop_recording :: "AudioEngine \<Rightarrow> sample list \<times> AudioEngine" where
  "AudioEngine_stop_recording a =
     (let raw = fst (drain (buffer a));
          a1 = a\<lparr>collecting := False, buffer := snd (drain (buffer a)), vad := reset (vad a)\<rparr>
      in if raw = [] then ([], a1) else (resample raw (hardware_sr a1) 16000, a1))"

definition release :: "AudioEngine \<Rightarrow> AudioEngine" where
  "release a = a\<lparr>running := False, collecting := False, pa_open := False\<rparr>"

definition resample_public :: "AudioEngine \<Rightarrow> sample list \<Rightarrow> sample list" where
  "resample_public a input = resample input (hardware_sr a) 16000"

section \<open>transcription\_pipeline.h, transcription\_pipeline.cpp\<close>

definition MAX_CHUNK_SAMPLES :: int where "MAX_CHUNK_SAMPLES = 480000"
definition MIN_SAMPLES :: int where "MIN_SAMPLES = 8000"
definition CONTINUOUS_MIN_SAMPLES :: int where "CONTINUOUS_MIN_SAMPLES = 24000"

text \<open>
  \<open>ctx\<close> is the \<^verbatim>\<open>unique_ptr<WhisperContext>\<close>, \<open>None\<close> when null. \<open>current_model\<close> is the
  name \<^verbatim>\<open>models_.current()\<close> reports, \<open>None\<close> when it returns null. The two callbacks
  \<^verbatim>\<open>on_transcription_start\<close> and \<^verbatim>\<open>on_transcription_end\<close> drive the overlay and are left
  out.
\<close>

record TranscriptionPipeline =
  audio :: AudioEngine
  current_model :: "string option"
  perf :: PerformanceMonitor
  settings :: Settings
  ctx :: "WhisperContext option"
  last_context_text :: string
  recording :: bool
  transcribing :: bool
  did_output :: bool
  continuous_running :: bool
  silence_frame_count :: int

definition start_continuous_monitor :: "TranscriptionPipeline \<Rightarrow> TranscriptionPipeline" where
  "start_continuous_monitor p = p\<lparr>silence_frame_count := 0, continuous_running := True\<rparr>"

definition stop_continuous_monitor :: "TranscriptionPipeline \<Rightarrow> TranscriptionPipeline" where
  "stop_continuous_monitor p = p\<lparr>continuous_running := False\<rparr>"

definition start_recording :: "TranscriptionPipeline \<Rightarrow> bool \<Rightarrow> TranscriptionPipeline" where
  "start_recording p pa_ok =
     (if recording p then p
      else let p1 = p\<lparr>last_context_text := [], did_output := False,
                       audio := AudioEngine_start_recording (audio p) pa_ok,
                       recording := True\<rparr>
           in if transcription_mode (settings p1) = continuous
              then start_continuous_monitor p1 else p1)"

definition output_text ::
  "TranscriptionPipeline \<Rightarrow> string \<Rightarrow> world \<Rightarrow> TranscriptionPipeline \<times> world" where
  "output_text p txt w = (p\<lparr>did_output := True\<rparr>, w\<lparr>typed := typed w @ [txt]\<rparr>)"

text \<open>The loop of \<^verbatim>\<open>transcribe_chunked\<close>, with the offset and the segments gathered so far.\<close>

function chunk_loop ::
  "whisper_lib \<Rightarrow> WhisperContext \<Rightarrow> sample list \<Rightarrow> nat \<Rightarrow> TranscriptionSegment list \<Rightarrow> world
     \<Rightarrow> TranscriptionSegment list \<times> world" where
  "chunk_loop W wc smpls offset all_segments w =
     (if offset < length smpls
      then let end_off = min (offset + static_cast_size_t MAX_CHUNK_SAMPLES) (length smpls);
               chunk = take (end_off - offset) (drop offset smpls);
               res = WhisperContext_transcribe W wc chunk None w;
               offset_ms = \<lfloor>real offset / 16\<rfloor>
           in chunk_loop W wc smpls end_off
                (all_segments @
                   map (\<lambda>seg. \<lparr>seg_text = seg_text seg,
                               start_time = start_time seg + offset_ms,
                               end_time = end_time seg + offset_ms\<rparr>)
                       (segments (fst res)))
                (snd res)
      else (all_segments, w))"
  by pat_completeness auto
termination
  by (relation "measure (\<lambda>(W, wc, smpls, offset, all_segments, w). length smpls - offset)")
     (auto simp: static_cast_size_t_def MAX_CHUNK_SAMPLES_def)

declare chunk_loop.simps [simp del]

definition transcribe_chunked ::
  "whisper_lib \<Rightarrow> TranscriptionPipeline \<Rightarrow> WhisperContext \<Rightarrow> sample list \<Rightarrow> world
     \<Rightarrow> TranscriptionResult \<times> world" where
  "transcribe_chunked W p wc smpls w =
     (let start = clock w;
          total_audio_ms = real (length smpls) / 16;
          res = chunk_loop W wc smpls 0 [] w;
          elapsed = clock (snd res) - start
      in (\<lparr>segments = fst res, audio_duration_ms = total_audio_ms,
            transcription_time_ms = elapsed,
            model_name = (case current_model p of Some n \<Rightarrow> n | None \<Rightarrow> ''unknown'')\<rparr>,
          snd res))"

definition transcribe_and_output ::
  "whisper_lib \<Rightarrow> TranscriptionPipeline \<Rightarrow> sample list \<Rightarrow> world
     \<Rightarrow> TranscriptionResult \<times> TranscriptionPipeline \<times> world" where
  "transcribe_and_output W p smpls w =
     (case ctx p of
        None \<Rightarrow> (empty_result, p, w)
      | Some wc \<Rightarrow>
          let p1 = p\<lparr>transcribing := True\<rparr>;
              res = (if static_cast_int (length smpls) > MAX_CHUNK_SAMPLES
                     then transcribe_chunked W p1 wc smpls w
                     else WhisperContext_transcribe W wc smpls None w);
              result = fst res;
              p2 = p1\<lparr>perf := record_perf (perf p1) result, transcribing := False\<rparr>;
              txt = pop_back_loop (erase_front_loop (full_text result));
              out = (if txt \<noteq> [] then output_text p2 txt (snd res) else (p2, snd res))
          in (result, fst out, snd out))"

definition stop_recording_and_transcribe ::
  "whisper_lib \<Rightarrow> TranscriptionPipeline \<Rightarrow> world
     \<Rightarrow> TranscriptionResult \<times> TranscriptionPipeline \<times> world" where
  "stop_recording_and_transcribe W p w =
     (if \<not> recording p then (empty_result, p, w)
      else let p1 = stop_continuous_monitor p;
               stopped = AudioEngine_stop_recording (audio p1);
               smpls = fst stopped;
               a1 = (if \<not> keep_mic_warm (settings p1) then release (snd stopped) else snd stopped);
               p2 = p1\<lparr>audio := a1, recording := False\<rparr>
           in if static_cast_int (length smpls) < MIN_SAMPLES then (empty_result, p2, w)
              else transcribe_and_output W p2 smpls w)"

text \<open>
  The two fragments of \<^verbatim>\<open>continuous_loop\<close> that handle the rolling context: the prompt
  built before the recognizer call, and the update after an accepted text.
\<close>

definition context_prompt_of :: "string \<Rightarrow> string option" where
  "context_prompt_of last_ctx =
     (if last_ctx \<noteq> []
      then let start = (if length last_ctx > 200 then length last_ctx - 200 else 0)
           in Some (drop start last_ctx)
      else None)"

definition append_context :: "string \<Rightarrow> string \<Rightarrow> string" where
  "append_context last_ctx txt =
     (let c = last_ctx @ '' '' @ txt
      in if length c > 500 then drop (length c - 300) c else c)"

text \<open>
  One pass through the body of the loop in \<^verbatim>\<open>continuous_loop\<close>, after the sleep. When
  \<open>continuous_running\<close> is false the loop ends and nothing changes.
\<close>

definition continuous_iteration ::
  "whisper_lib \<Rightarrow> TranscriptionPipeline \<Rightarrow> world \<Rightarrow> TranscriptionPipeline \<times> world" where
  "continuous_iteration W p w =
     (if \<not> continuous_running p then (p, w)
      else let buf_count = count_rb (buffer (audio p));
               p1 = p\<lparr>silence_frame_count :=
                         (if is_speaking (vad (audio p)) then 0 else silence_frame_count p + 1)\<rparr>;
               pause_detected = (buf_count > 0 \<and> silence_frame_count p1 \<ge> 3);
               buffer_full = (buf_count > nat \<lfloor>hardware_sr (audio p)\<rfloor> * 25)
           in if (\<not> pause_detected \<and> \<not> buffer_full) \<or> transcribing p1 then (p1, w)
              else let min_raw = nat \<lfloor>real_of_int CONTINUOUS_MIN_SAMPLES * hardware_sr (audio p) / 16000\<rfloor>
                   in if buf_count < min_raw then (p1, w)
                      else let raw = fst (drain (buffer (audio p1)));
                               p2 = p1\<lparr>audio := (audio p1)\<lparr>buffer := snd (drain (buffer (audio p1)))\<rparr>\<rparr>;
                               resampled = resample_public (audio p2) raw
                           in case ctx p2 of
                                None \<Rightarrow> (p2, w)
                              | Some wc \<Rightarrow>
                                  let res = WhisperContext_transcribe W wc resampled
                                              (context_prompt_of (last_context_text p2)) w;
                                      result = fst res;
                                      p3 = p2\<lparr>transcribing := False\<rparr>;
                                      txt = pop_back_loop (erase_front_loop (full_text result))
                                  in if txt = [] \<or> is_hallucination txt then (p3, snd res)
                                     else output_text
                                            (p3\<lparr>last_context_text := append_context (last_context_text p3) txt,
                                                 perf := record_perf (perf p3) result\<rparr>)
                                            (txt @ '' '') (snd res))"

section \<open>A recording session as a sequence of events\<close>

text \<open>
  Between \<^verbatim>\<open>start_recording\<close> and \<^verbatim>\<open>stop_recording_and_transcribe\<close> two threads act on the
  pipeline. The capture thread runs frames through the detector and appends what it emits
  to the ring buffer: \<open>Captured v xs\<close> says that it left the detector as \<open>v\<close> and appended
  \<open>xs\<close> (any detector and any samples, so every behaviour of the capture thread is covered);
  it acts only while \<open>collecting\<close> is set. The monitor thread of continuous mode wakes up and
  runs the body of its loop once: \<open>Tick\<close>.
\<close>

datatype event = Captured VoiceActivityDetector "sample list" | Tick

fun step ::
  "whisper_lib \<Rightarrow> TranscriptionPipeline \<times> world \<Rightarrow> event \<Rightarrow> TranscriptionPipeline \<times> world" where
  "step W (p, w) (Captured v xs) =
     (if collecting (audio p)
      then (p\<lparr>audio := (audio p)\<lparr>vad := v, buffer := append_rb (buffer (audio p)) xs\<rparr>\<rparr>, w)
      else (p, w))"
| "step W (p, w) Tick = continuous_iteration W p w"

definition run ::
  "whisper_lib \<Rightarrow> TranscriptionPipeline \<times> world \<Rightarrow> event list \<Rightarrow> TranscriptionPipeline \<times> world" where
  "run W s evs = foldl (step W) s evs"

text \<open>
  The continuous loop hands \<open>txt @ '' ''\<close> to \<^verbatim>\<open>output_text\<close> for every text \<open>txt\<close> it commits.
  \<open>session_text outs\<close> is what the commits behind the outputs \<open>outs\<close> add to the rolling
  context when nothing is cut off: each text with a space in front.
\<close>

definition session_text :: "string list \<Rightarrow> string" where
  "session_text outs = concat (map (\<lambda>t. '' '' @ butlast t) outs)"

section \<open>Chunking, as the specification words it\<close>

text \<open>
  The input cut into consecutive pieces of \<open>n\<close> samples, the last one shorter when the
  length is not a multiple of \<open>n\<close>.
\<close>

function split_chunks :: "nat \<Rightarrow> 'a list \<Rightarrow> 'a list list" where
  "split_chunks n xs =
     (if n = 0 \<or> xs = [] then [] else take n xs # split_chunks n (drop n xs))"
  by pat_completeness auto
termination
  by (relation "measure (\<lambda>(n, xs). length xs)") auto

declare split_chunks.simps [simp del]

definition rebase :: "int \<Rightarrow> TranscriptionSegment \<Rightarrow> TranscriptionSegment" where
  "rebase offset_ms seg = \<lparr>seg_text = seg_text seg,
                            start_time = start_time seg + offset_ms,
                            end_time = end_time seg + offset_ms\<rparr>"

text \<open>
  Each chunk transcribed on its own, in order and with no context prompt; the segments of
  the chunk that starts at sample \<open>offset\<close> moved by \<open>\<lfloor>offset / 16\<rfloor>\<close> milliseconds; all
  segments concatenated in chunk order.
\<close>

fun transcribe_each ::
  "whisper_lib \<Rightarrow> WhisperContext \<Rightarrow> sample list list \<Rightarrow> nat \<Rightarrow> world
     \<Rightarrow> TranscriptionSegment list \<times> world" where
  "transcribe_each W wc [] offset w = ([], w)"
| "transcribe_each W wc (chunk # chunks) offset w =
     (let res = WhisperContext_transcribe W wc chunk None w;
          rest = transcribe_each W wc chunks (offset + length chunk) (snd res)
      in (map (rebase \<lfloor>real offset / 16\<rfloor>) (segments (fst res)) @ fst rest, snd rest))"

text \<open>
  Segments in time order: along the list neither the start times nor the end times ever
  decrease. A list of segments lies within a piece of audio of \<open>n\<close> samples when it is in
  time order and every time is between 0 and the \<open>\<lfloor>n / 16\<rfloor>\<close> milliseconds the piece lasts.
\<close>

definition time_ordered :: "TranscriptionSegment list \<Rightarrow> bool" where
  "time_ordered segs =
     sorted_wrt (\<lambda>a b. start_time a \<le> start_time b \<and> end_time a \<le> end_time b) segs"

definition segment_within :: "int \<Rightarrow> int \<Rightarrow> TranscriptionSegment \<Rightarrow> bool" where
  "segment_within lo hi seg =
     (lo \<le> start_time seg \<and> start_time seg \<le> hi \<and> lo \<le> end_time seg \<and> end_time seg \<le> hi)"

definition within_audio :: "nat \<Rightarrow> TranscriptionSegment list \<Rightarrow> bool" where
  "within_audio n segs =
     (time_ordered segs \<and> list_all (segment_within 0 \<lfloor>real n / 16\<rfloor>) segs)"

section \<open>Example configurations\<close>

text \<open>
  The settings of \<^verbatim>\<open>settings.h\<close>, an engine whose device is open, and a pipeline with a
  model loaded, before any recording. Three recognizers: one that reports a single segment
  spanning the audio it was given, one whose first answer lies past the audio it was
  given, and one that fails.
\<close>

definition Settings_init :: Settings where
  "Settings_init = \<lparr>initial_prompt = [], keep_mic_warm = True, transcription_mode = continuous\<rparr>"

definition AudioEngine_open :: AudioEngine where
  "AudioEngine_open =
     \<lparr>pa_open = True, vad = VoiceActivityDetector_init\<lparr>min_speech_duration_ms := 30\<rparr>,
      buffer = RingBuffer_init, hardware_sr = 48000, running = True, collecting = False\<rparr>"

definition pipeline_loaded :: TranscriptionPipeline where
  "pipeline_loaded =
     \<lparr>audio = AudioEngine_open, current_model = Some ''base.en'',
      perf = \<lparr>perf_last = empty_result, perf_total = 0, perf_rtf_sum = 0\<rparr>,
      settings = Settings_init,
      ctx = Some \<lparr>wc_settings = Settings_init, wc_model_name = ''base.en''\<rparr>,
      last_context_text = [], recording = False, transcribing = False, did_output = False,
      continuous_running = False, silence_frame_count = 0\<rparr>"

definition world_init :: world where
  "world_init = \<lparr>whisper_log = [], typed = [], clock = 0\<rparr>"

definition whisper_spanning :: whisper_lib where
  "whisper_spanning hist call =
     \<lparr>rc = 0,
      out_segments = [(''a'', 0, int (length (call_samples call)) div 160)],
      took_ms = 1\<rparr>"

definition whisper_late :: whisper_lib where
  "whisper_late hist call =
     (if hist = []
      then \<lparr>rc = 0, out_segments = [(''a'', 3050, 3100)], took_ms = 1\<rparr>
      else \<lparr>rc = 0, out_segments = [(''b'', 0, 50)], took_ms = 1\<rparr>)"

definition whisper_failing :: whisper_lib where
  "whisper_failing hist call = \<lparr>rc = 1, out_segments = [(''a'', 0, 100)], took_ms = 7\<rparr>"

text \<open>A recognizer that hears \<open>hello world\<close>, then \<open>foo bar\<close>, then \<open>baz qux\<close> for ever.\<close>

definition whisper_dictation :: whisper_lib where
  "whisper_dictation hist call =
     \<lparr>rc = 0,
      out_segments =
        [(if length hist = 0 then '' hello world''
          else if length hist = 1 then '' foo bar'' else '' baz qux'', 0, 150)],
      took_ms = 1\<rparr>"

section \<open>Ring buffer: appends followed by a drain\<close>

text \<open>
  C1. Starting from an empty buffer (a new buffer, or any buffer right after a drain), the
  appends \<open>A1 .. An\<close> followed by one drain return the concatenation of \<open>A1 .. An\<close> in append
  order and leave the buffer empty; a second drain with no append in between returns the
  empty sequence.
\<close>

lemma foldl_append_rb: "samples (foldl append_rb rb As) = samples rb @ concat As"
  by (induction As arbitrary: rb) (simp_all add: append_rb_def)

theorem ring_buffer_appends_then_drain:
  "fst (drain (foldl append_rb RingBuffer_init As)) = concat As
   \<and> samples (snd (drain (foldl append_rb RingBuffer_init As))) = []
   \<and> count_rb (snd (drain (foldl append_rb RingBuffer_init As))) = 0
   \<and> fst (drain (snd (drain (foldl append_rb RingBuffer_init As)))) = []
   \<and> fst (drain (foldl append_rb (snd (drain rb)) As)) = concat As
   \<and> fst (drain (snd (drain (foldl append_rb (snd (drain rb)) As)))) = []"
  by (simp add: drain_def foldl_append_rb RingBuffer_init_def count_rb_def)

section \<open>Voice activity detector\<close>

subsection \<open>Casts and the RMS of a constant frame\<close>

lemma static_cast_int_small: "n < 2 ^ 31 \<Longrightarrow> static_cast_int n = int n"
  unfolding static_cast_int_def
  by (simp add: signed_take_bit_int_eq_self)

lemma static_cast_size_t_small: "0 \<le> i \<Longrightarrow> i < 2 ^ 64 \<Longrightarrow> static_cast_size_t i = nat i"
  unfolding static_cast_size_t_def by simp

lemma foldl_squares_replicate:
  "foldl (\<lambda>sum x. sum + x * x) a (replicate n c) = a + real n * (c * c)"
  by (induction n arbitrary: a) (simp_all add: algebra_simps)

lemma compute_rms_replicate: "0 < n \<Longrightarrow> compute_rms (replicate n c) = \<bar>c\<bar>"
  by (simp add: compute_rms_def foldl_squares_replicate real_sqrt_mult)


subsection \<open>Buffers that are empty outside their state\<close>

text \<open>
  From \<open>reset\<close> on, the onset accumulator is empty except in \<open>speech_onset\<close> and the
  post-speech accumulator is empty except in \<open>speech_offset\<close>.
\<close>

lemma buffers_empty_reset:
  "onset_buf (reset v) = [] \<and> post_speech_buf (reset v) = []"
  by (simp add: reset_def)

lemma buffers_empty_step:
  assumes "state v \<noteq> speech_onset \<longrightarrow> onset_buf v = []"
      and "state v \<noteq> speech_offset \<longrightarrow> post_speech_buf v = []"
  shows "(state (fst (process_frame v f out)) \<noteq> speech_onset \<longrightarrow>
            onset_buf (fst (process_frame v f out)) = [])
       \<and> (state (fst (process_frame v f out)) \<noteq> speech_offset \<longrightarrow>
            post_speech_buf (fst (process_frame v f out)) = [])"
  using assms
  by (cases "state v") (simp_all add: process_frame_def Let_def append_to_pre_speech_def)

subsection \<open>A frame in state \<open>speech_offset\<close>\<close>

text \<open>
  C2. In state \<open>speech_offset\<close> (the post-speech padding being a number of samples that an
  \<^verbatim>\<open>int\<close> holds and that is not negative):
  a frame with RMS below \<open>silence_threshold\<close> is appended to the post-speech accumulator
  and its length added to the silence count; when the count then reaches
  \<open>min_silence_samples\<close>, the detector emits the first \<open>post_speech_max_samples\<close> samples of
  the post-speech buffer (all of it when it is shorter), empties the post-speech and
  pre-speech buffers, zeroes the silence count, sets \<open>is_speaking\<close> to false and moves to
  \<open>silence\<close>; the onset accumulator, which is empty in this state by \<open>buffers_empty_step\<close>,
  is not touched.
  A frame with RMS at or above \<open>silence_threshold\<close> makes the detector emit the whole
  post-speech buffer and then the frame, empty the post-speech accumulator and return to
  \<open>speaking\<close>.
\<close>

theorem speech_offset_frame:
  assumes "state v = speech_offset"
      and "0 \<le> post_speech_max_samples v" and "post_speech_max_samples v < 2 ^ 31"
  shows "(compute_rms frame < silence_threshold v \<and>
            silence_sample_count v + static_cast_int (length frame) < min_silence_samples v \<longrightarrow>
          process_frame v frame output =
            (v\<lparr>silence_sample_count := silence_sample_count v + static_cast_int (length frame),
               post_speech_buf := post_speech_buf v @ frame\<rparr>, output))
       \<and> (compute_rms frame < silence_threshold v \<and>
            silence_sample_count v + static_cast_int (length frame) \<ge> min_silence_samples v \<longrightarrow>
          process_frame v frame output =
            (v\<lparr>silence_sample_count := 0, post_speech_buf := [], state := silence,
               is_speaking := False, pre_speech_buf := []\<rparr>,
             output @ take (nat (post_speech_max_samples v)) (post_speech_buf v @ frame)))
       \<and> (compute_rms frame \<ge> silence_threshold v \<longrightarrow>
          process_frame v frame output =
            (v\<lparr>post_speech_buf := [], silence_sample_count := 0, state := speaking\<rparr>,
             output @ post_speech_buf v @ frame))"
proof -
  have pm: "post_speech_max_samples
              (v\<lparr>silence_sample_count := c, post_speech_buf := b\<rparr>) = post_speech_max_samples v" for c b
    by (simp add: post_speech_max_samples_def)
  have ms: "min_silence_samples
              (v\<lparr>silence_sample_count := c, post_speech_buf := b\<rparr>) = min_silence_samples v" for c b
    by (simp add: min_silence_samples_def)
  have cast: "static_cast_size_t (post_speech_max_samples v) = nat (post_speech_max_samples v)"
    using assms(2,3) by (intro static_cast_size_t_small) auto
  show ?thesis
    using assms(1)
    by (auto simp: process_frame_def Let_def pm ms cast take_all min_def)
qed

text \<open>
  The three cases with the default configuration at 16 kHz, where the padding is 4800
  samples and the silence to confirm is 9600 samples. In the last case 9480 samples are
  emitted, more than the padding.
\<close>

theorem speech_offset_frame_witness:
  "state (VoiceActivityDetector_init\<lparr>state := speech_offset, is_speaking := True,
            post_speech_buf := replicate 9000 0, silence_sample_count := 9000\<rparr>) = speech_offset
   \<and> post_speech_max_samples VoiceActivityDetector_init = 4800
   \<and> min_silence_samples VoiceActivityDetector_init = 9600
   \<and> compute_rms (replicate 480 0) < silence_threshold VoiceActivityDetector_init
   \<and> compute_rms (replicate 480 1) \<ge> silence_threshold VoiceActivityDetector_init
   \<and> process_frame
         (VoiceActivityDetector_init\<lparr>state := speech_offset, is_speaking := True,
            post_speech_buf := replicate 9000 0, silence_sample_count := 9000\<rparr>)
         (replicate 480 0) [] =
       (VoiceActivityDetector_init\<lparr>state := speech_offset, is_speaking := True,
            post_speech_buf := replicate 9480 0, silence_sample_count := 9480\<rparr>, [])
   \<and> process_frame
         (VoiceActivityDetector_init\<lparr>state := speech_offset, is_speaking := True,
            post_speech_buf := replicate 9120 0, silence_sample_count := 9120\<rparr>)
         (replicate 480 0) [] =
       (VoiceActivityDetector_init, replicate 4800 0)
   \<and> process_frame
         (VoiceActivityDetector_init\<lparr>state := speech_offset, is_speaking := True,
            post_speech_buf := replicate 9000 0, silence_sample_count := 9000\<rparr>)
         (replicate 480 1) [] =
       (VoiceActivityDetector_init\<lparr>state := speaking, is_speaking := True\<rparr>,
        replicate 9000 0 @ replicate 480 1)
   \<and> int (length (replicate 9000 (0::real) @ replicate 480 1)) >
       post_speech_max_samples VoiceActivityDetector_init"
  using speech_offset_frame [of "VoiceActivityDetector_init\<lparr>state := speech_offset, is_speaking := True,
            post_speech_buf := replicate 9000 0, silence_sample_count := 9000\<rparr>" "replicate 480 0" "[]"]
        speech_offset_frame [of "VoiceActivityDetector_init\<lparr>state := speech_offset, is_speaking := True,
            post_speech_buf := replicate 9120 0, silence_sample_count := 9120\<rparr>" "replicate 480 0" "[]"]
        speech_offset_frame [of "VoiceActivityDetector_init\<lparr>state := speech_offset, is_speaking := True,
            post_speech_buf := replicate 9000 0, silence_sample_count := 9000\<rparr>" "replicate 480 1" "[]"]
  by (simp add: VoiceActivityDetector_init_def post_speech_max_samples_def min_silence_samples_def
        signed_divide_int_def compute_rms_replicate static_cast_int_small
        replicate_add [symmetric])


subsection \<open>Frames between the two thresholds\<close>

lemma append_to_pre_speech_keeps:
  "state (append_to_pre_speech v d) = state v"
  "is_speaking (append_to_pre_speech v d) = is_speaking v"
  "silence_threshold (append_to_pre_speech v d) = silence_threshold v"
  "speech_threshold (append_to_pre_speech v d) = speech_threshold v"
  "onset_buf (append_to_pre_speech v d) = onset_buf v"
  "post_speech_buf (append_to_pre_speech v d) = post_speech_buf v"
  by (simp_all add: append_to_pre_speech_def Let_def)

lemma process_frame_thresholds:
  "silence_threshold (fst (process_frame v f out)) = silence_threshold v
   \<and> speech_threshold (fst (process_frame v f out)) = speech_threshold v"
  by (cases "state v") (simp_all add: process_frame_def Let_def append_to_pre_speech_keeps)

lemma in_band_step: "in_band (fst (process_frame v f out)) g = in_band v g"
  by (simp add: in_band_def process_frame_thresholds)

lemma band_step_state:
  "in_band v f \<Longrightarrow> state (fst (process_frame v f out)) = band_state (state v)"
  by (cases "state v") (simp_all add: in_band_def process_frame_def Let_def append_to_pre_speech_keeps)

lemma band_step_is_speaking:
  "in_band v f \<Longrightarrow> is_speaking (fst (process_frame v f out)) = is_speaking v"
  by (cases "state v") (simp_all add: in_band_def process_frame_def Let_def append_to_pre_speech_keeps)

lemma band_state_idem: "band_state (band_state s) = band_state s"
  by (cases s) simp_all

lemma band_run_state:
  "\<forall>f \<in> set fs. in_band v f \<Longrightarrow> fs \<noteq> [] \<Longrightarrow>
     state (fst (process_frames v fs out)) = band_state (state v)"
proof (induction fs arbitrary: v out)
  case Nil
  then show ?case by simp
next
  case (Cons f fs)
  let ?v' = "fst (process_frame v f out)"
  have st: "state ?v' = band_state (state v)"
    using Cons.prems(1) by (simp add: band_step_state)
  show ?case
  proof (cases "fs = []")
    case True
    then show ?thesis using st by simp
  next
    case False
    have "\<forall>g \<in> set fs. in_band ?v' g"
      using Cons.prems(1) by (simp add: in_band_step)
    from Cons.IH [OF this False]
    show ?thesis by (simp add: st band_state_idem)
  qed
qed

lemma band_run_silence:
  "\<forall>f \<in> set fs. in_band v f \<Longrightarrow> state v = silence \<Longrightarrow>
     snd (process_frames v fs out) = out \<and> state (fst (process_frames v fs out)) = silence"
proof (induction fs arbitrary: v out)
  case Nil
  then show ?case by simp
next
  case (Cons f fs)
  have step: "process_frame v f out = (append_to_pre_speech v f, out)"
    using Cons.prems by (simp add: in_band_def process_frame_def Let_def)
  have "\<forall>g \<in> set fs. in_band (append_to_pre_speech v f) g"
    using Cons.prems(1) by (simp add: in_band_def append_to_pre_speech_keeps)
  moreover have "state (append_to_pre_speech v f) = silence"
    using Cons.prems(2) by (simp add: append_to_pre_speech_keeps)
  ultimately show ?case
    using Cons.IH [of "append_to_pre_speech v f" out] by (simp add: step)
qed

lemma band_run_speaking:
  "\<forall>f \<in> set fs. in_band v f \<Longrightarrow> state v = speaking \<Longrightarrow>
     process_frames v fs out = (v, out @ concat fs)"
proof (induction fs arbitrary: out)
  case Nil
  then show ?case by simp
next
  case (Cons f fs)
  have step: "process_frame v f out = (v, out @ f)"
    using Cons.prems by (simp add: in_band_def process_frame_def Let_def)
  show ?case
    using Cons.IH [of "out @ f"] Cons.prems by (simp add: step)
qed


subsection \<open>The pre-speech window\<close>

text \<open>
  With a maximum that is not negative and fewer than \<open>2^31\<close> samples at hand,
  \<open>append_to_pre_speech\<close> leaves in the window the last \<open>pre_speech_max_samples\<close> samples of
  the old window followed by the new data, and all of them when they are fewer.
\<close>

lemma append_to_pre_speech_window:
  assumes "0 \<le> pre_speech_max_samples v" and "length (pre_speech_buf v @ data) < 2 ^ 31"
  shows "append_to_pre_speech v data =
           v\<lparr>pre_speech_buf :=
               drop (length (pre_speech_buf v @ data) - nat (pre_speech_max_samples v))
                    (pre_speech_buf v @ data)\<rparr>"
proof -
  let ?buf = "pre_speech_buf v @ data"
  have cast: "static_cast_int (length ?buf) = int (length ?buf)"
    using assms(2) by (rule static_cast_int_small)
  show ?thesis
  proof (cases "int (length ?buf) > pre_speech_max_samples v")
    case True
    have "nat (int (length ?buf) - pre_speech_max_samples v) =
            length ?buf - nat (pre_speech_max_samples v)"
      using assms(1) by linarith
    then show ?thesis
      using True cast by (simp add: append_to_pre_speech_def Let_def)
  next
    case False
    then have "length ?buf - nat (pre_speech_max_samples v) = 0"
      by linarith
    then show ?thesis
      using False cast by (simp add: append_to_pre_speech_def Let_def)
  qed
qed

lemma append_to_pre_speech_max:
  "pre_speech_max_samples (append_to_pre_speech v d) = pre_speech_max_samples v"
  by (simp add: append_to_pre_speech_def Let_def pre_speech_max_samples_def)

lemma window_twice:
  "drop (length (drop (length xs - m) xs @ ys) - m) (drop (length xs - m) xs @ ys) =
     drop (length (xs @ ys) - m) (xs @ ys)"
  by (cases "length xs \<le> m") (auto simp add: add.commute)

lemma band_run_window:
  assumes "\<forall>g \<in> set (f # fs). in_band v g" and "state v = silence"
      and "0 \<le> pre_speech_max_samples v"
      and "length (pre_speech_buf v @ concat (f # fs)) < 2 ^ 31"
  shows "fst (process_frames v (f # fs) out) =
           v\<lparr>pre_speech_buf :=
               drop (length (pre_speech_buf v @ concat (f # fs)) - nat (pre_speech_max_samples v))
                    (pre_speech_buf v @ concat (f # fs))\<rparr>"
  using assms
proof (induction fs arbitrary: v f)
  case Nil
  have "process_frame v f out = (append_to_pre_speech v f, out)"
    using Nil.prems(1,2) by (simp add: in_band_def process_frame_def Let_def)
  then show ?case
    using append_to_pre_speech_window [of v f] Nil.prems(3,4) by simp
next
  case (Cons g gs)
  let ?m = "nat (pre_speech_max_samples v)"
  let ?w = "drop (length (pre_speech_buf v @ f) - ?m) (pre_speech_buf v @ f)"
  let ?v' = "v\<lparr>pre_speech_buf := ?w\<rparr>"
  have step: "process_frame v f out = (?v', out)"
  proof -
    have "process_frame v f out = (append_to_pre_speech v f, out)"
      using Cons.prems(1,2) by (simp add: in_band_def process_frame_def Let_def)
    moreover have "length (pre_speech_buf v @ f) < 2 ^ 31"
      using Cons.prems(4) by simp
    ultimately show ?thesis
      using append_to_pre_speech_window [of v f] Cons.prems(3) by simp
  qed
  have 1: "\<forall>h \<in> set (g # gs). in_band ?v' h"
    using Cons.prems(1) by (simp add: in_band_def)
  have 2: "state ?v' = silence"
    using Cons.prems(2) by simp
  have 3: "0 \<le> pre_speech_max_samples ?v'"
    using Cons.prems(3) by (simp add: pre_speech_max_samples_def)
  have 4: "length (pre_speech_buf ?v' @ concat (g # gs)) < 2 ^ 31"
    using Cons.prems(4) by simp
  have m: "nat (pre_speech_max_samples ?v') = ?m"
    by (simp add: pre_speech_max_samples_def)
  have tw: "drop (length (?w @ concat (g # gs)) - ?m) (?w @ concat (g # gs)) =
            drop (length ((pre_speech_buf v @ f) @ concat (g # gs)) - ?m)
                 ((pre_speech_buf v @ f) @ concat (g # gs))"
    by (rule window_twice)
  have "fst (process_frames v (f # g # gs) out) = fst (process_frames ?v' (g # gs) out)"
    by (simp add: step)
  also have "\<dots> = ?v'\<lparr>pre_speech_buf :=
                 drop (length (pre_speech_buf ?v' @ concat (g # gs)) - nat (pre_speech_max_samples ?v'))
                      (pre_speech_buf ?v' @ concat (g # gs))\<rparr>"
    using Cons.IH [OF 1 2 3 4] .
  also have "\<dots> = v\<lparr>pre_speech_buf :=
                 drop (length (pre_speech_buf v @ concat (f # g # gs)) - ?m)
                      (pre_speech_buf v @ concat (f # g # gs))\<rparr>"
    unfolding m using tw by simp
  finally show ?case .
qed

subsection \<open>What a frame in the band does in each state\<close>

text \<open>
  C3. For frames whose RMS lies strictly between \<open>silence_threshold\<close> and
  \<open>speech_threshold\<close>, the state after the frame is a function of the state before it
  (\<open>band_state\<close>), and \<open>is_speaking\<close> does not change. A detector in \<open>silence\<close> stays in
  \<open>silence\<close>, hands the frame to the pre-speech window and emits nothing; a detector in
  \<open>speaking\<close> stays in \<open>speaking\<close>, is unchanged and emits the frame. Over a run of such
  frames the state after the first frame never changes again: from \<open>silence\<close> nothing is
  emitted during the whole run, from \<open>speaking\<close> every frame is emitted.

  What the detector does is fixed by the state the frame finds it in. In \<open>silence\<close> only
  the window changes: it becomes the last \<open>pre_speech_max_samples\<close> samples of the old window
  followed by the frame, and over a run the last that many samples of the old window
  followed by all the frames. In \<open>speech_onset\<close> the detector emits nothing, puts the onset
  accumulator and the frame into the window in the same way, empties the accumulator and
  goes to \<open>silence\<close>, where the run stays. In \<open>speech_offset\<close> it emits the post-speech
  accumulator and then the frame, empties the accumulator and goes to \<open>speaking\<close>, where
  the rest of the run is emitted. The statements about the window are for a maximum that
  is not negative and fewer than \<open>2^31\<close> samples.
\<close>

theorem hysteresis_band:
  assumes "\<forall>f \<in> set (frame # frames). in_band v f"
  shows "state (fst (process_frame v frame output)) = band_state (state v)
       \<and> is_speaking (fst (process_frame v frame output)) = is_speaking v
       \<and> (state v = silence \<longrightarrow>
            process_frame v frame output = (append_to_pre_speech v frame, output)
            \<and> state (append_to_pre_speech v frame) = silence)
       \<and> (state v = speaking \<longrightarrow> process_frame v frame output = (v, output @ frame))
       \<and> state (fst (process_frames v (frame # frames) output)) = band_state (state v)
       \<and> (state v = silence \<longrightarrow>
            state (fst (process_frames v (frame # frames) output)) = silence
            \<and> snd (process_frames v (frame # frames) output) = output)
       \<and> (state v = speaking \<longrightarrow>
            process_frames v (frame # frames) output = (v, output @ concat (frame # frames)))
       \<and> (state v = silence \<and> 0 \<le> pre_speech_max_samples v
            \<and> length (pre_speech_buf v @ frame) < 2 ^ 31 \<longrightarrow>
            process_frame v frame output =
              (v\<lparr>pre_speech_buf :=
                   drop (length (pre_speech_buf v @ frame) - nat (pre_speech_max_samples v))
                        (pre_speech_buf v @ frame)\<rparr>, output))
       \<and> (state v = silence \<and> 0 \<le> pre_speech_max_samples v
            \<and> length (pre_speech_buf v @ concat (frame # frames)) < 2 ^ 31 \<longrightarrow>
            process_frames v (frame # frames) output =
              (v\<lparr>pre_speech_buf :=
                   drop (length (pre_speech_buf v @ concat (frame # frames))
                           - nat (pre_speech_max_samples v))
                        (pre_speech_buf v @ concat (frame # frames))\<rparr>, output))
       \<and> (state v = speech_onset \<longrightarrow>
            snd (process_frame v frame output) = output
            \<and> onset_buf (fst (process_frame v frame output)) = []
            \<and> snd (process_frames v (frame # frames) output) = output)
       \<and> (state v = speech_onset \<and> 0 \<le> pre_speech_max_samples v
            \<and> length (pre_speech_buf v @ onset_buf v @ frame) < 2 ^ 31 \<longrightarrow>
            process_frame v frame output =
              (v\<lparr>pre_speech_buf :=
                   drop (length (pre_speech_buf v @ onset_buf v @ frame)
                           - nat (pre_speech_max_samples v))
                        (pre_speech_buf v @ onset_buf v @ frame),
                 onset_buf := [], speech_sample_count := 0, state := silence\<rparr>, output))
       \<and> (state v = speech_offset \<longrightarrow>
            process_frame v frame output =
              (v\<lparr>post_speech_buf := [], silence_sample_count := 0, state := speaking\<rparr>,
               output @ post_speech_buf v @ frame)
            \<and> process_frames v (frame # frames) output =
              (v\<lparr>post_speech_buf := [], silence_sample_count := 0, state := speaking\<rparr>,
               output @ post_speech_buf v @ concat (frame # frames)))"
proof -
  have b: "in_band v frame" using assms by simp
  have rest: "\<forall>g \<in> set frames. in_band (fst (process_frame v frame output)) g"
    using assms by (simp add: in_band_step)
  have c3: "state v = silence \<longrightarrow> process_frame v frame output = (append_to_pre_speech v frame, output)"
    using b by (simp add: in_band_def process_frame_def Let_def)
  have c4: "state v = speaking \<longrightarrow> process_frame v frame output = (v, output @ frame)"
    using b by (simp add: in_band_def process_frame_def Let_def)
  have c5: "state (fst (process_frames v (frame # frames) output)) = band_state (state v)"
    using band_run_state [OF assms] by simp
  have c6: "state v = silence \<longrightarrow>
            state (fst (process_frames v (frame # frames) output)) = silence
            \<and> snd (process_frames v (frame # frames) output) = output"
    using band_run_silence [OF assms] by blast
  have c7: "state v = speaking \<longrightarrow>
            process_frames v (frame # frames) output = (v, output @ concat (frame # frames))"
    using band_run_speaking [OF assms] by blast
  have c8: "state v = silence \<and> 0 \<le> pre_speech_max_samples v
            \<and> length (pre_speech_buf v @ frame) < 2 ^ 31 \<longrightarrow>
            process_frame v frame output =
              (v\<lparr>pre_speech_buf :=
                   drop (length (pre_speech_buf v @ frame) - nat (pre_speech_max_samples v))
                        (pre_speech_buf v @ frame)\<rparr>, output)"
    using c3 append_to_pre_speech_window [of v frame] by simp
  have c9: "state v = silence \<and> 0 \<le> pre_speech_max_samples v
            \<and> length (pre_speech_buf v @ concat (frame # frames)) < 2 ^ 31 \<longrightarrow>
            process_frames v (frame # frames) output =
              (v\<lparr>pre_speech_buf :=
                   drop (length (pre_speech_buf v @ concat (frame # frames))
                           - nat (pre_speech_max_samples v))
                        (pre_speech_buf v @ concat (frame # frames))\<rparr>, output)"
  proof (intro impI, elim conjE)
    assume h: "state v = silence" "0 \<le> pre_speech_max_samples v"
      "length (pre_speech_buf v @ concat (frame # frames)) < 2 ^ 31"
    from band_run_window [OF assms h, of "output"] c6 h(1)
    show "process_frames v (frame # frames) output =
              (v\<lparr>pre_speech_buf :=
                   drop (length (pre_speech_buf v @ concat (frame # frames))
                           - nat (pre_speech_max_samples v))
                        (pre_speech_buf v @ concat (frame # frames))\<rparr>, output)"
      by (simp add: prod_eq_iff del: process_frames.simps)
  qed
  have on1: "state v = speech_onset \<longrightarrow>
            process_frame v frame output =
              ((append_to_pre_speech (append_to_pre_speech v (onset_buf v)) frame)
                 \<lparr>onset_buf := [], speech_sample_count := 0, state := silence\<rparr>, output)"
    using b by (simp add: in_band_def process_frame_def Let_def)
  have c10: "state v = speech_onset \<longrightarrow>
            snd (process_frame v frame output) = output
            \<and> onset_buf (fst (process_frame v frame output)) = []
            \<and> snd (process_frames v (frame # frames) output) = output"
  proof
    assume h: "state v = speech_onset"
    let ?v' = "fst (process_frame v frame output)"
    have o: "snd (process_frame v frame output) = output"
      and e: "onset_buf ?v' = []" and st: "state ?v' = silence"
      using on1 h by simp_all
    from band_run_silence [OF rest st, of "output"]
    have "snd (process_frames ?v' frames output) = output" by blast
    then show "snd (process_frame v frame output) = output
            \<and> onset_buf (fst (process_frame v frame output)) = []
            \<and> snd (process_frames v (frame # frames) output) = output"
      using o e by simp
  qed
  have c11: "state v = speech_onset \<and> 0 \<le> pre_speech_max_samples v
            \<and> length (pre_speech_buf v @ onset_buf v @ frame) < 2 ^ 31 \<longrightarrow>
            process_frame v frame output =
              (v\<lparr>pre_speech_buf :=
                   drop (length (pre_speech_buf v @ onset_buf v @ frame)
                           - nat (pre_speech_max_samples v))
                        (pre_speech_buf v @ onset_buf v @ frame),
                 onset_buf := [], speech_sample_count := 0, state := silence\<rparr>, output)"
  proof (intro impI, elim conjE)
    assume h: "state v = speech_onset" "0 \<le> pre_speech_max_samples v"
      "length (pre_speech_buf v @ onset_buf v @ frame) < 2 ^ 31"
    let ?m = "nat (pre_speech_max_samples v)"
    let ?w = "drop (length (pre_speech_buf v @ onset_buf v) - ?m) (pre_speech_buf v @ onset_buf v)"
    have l1: "length (pre_speech_buf v @ onset_buf v) < 2 ^ 31"
      using h(3) by simp
    have a1: "append_to_pre_speech v (onset_buf v) = v\<lparr>pre_speech_buf := ?w\<rparr>"
      using append_to_pre_speech_window [OF h(2) l1] .
    have m: "pre_speech_max_samples (v\<lparr>pre_speech_buf := ?w\<rparr>) = pre_speech_max_samples v"
      by (simp add: pre_speech_max_samples_def)
    have l2: "length (pre_speech_buf (v\<lparr>pre_speech_buf := ?w\<rparr>) @ frame) < 2 ^ 31"
      using h(3) by simp
    have a2: "append_to_pre_speech (v\<lparr>pre_speech_buf := ?w\<rparr>) frame =
                v\<lparr>pre_speech_buf := drop (length (?w @ frame) - ?m) (?w @ frame)\<rparr>"
      using append_to_pre_speech_window [of "v\<lparr>pre_speech_buf := ?w\<rparr>" frame] h(2) l2
      unfolding m by simp
    have tw: "drop (length (?w @ frame) - ?m) (?w @ frame) =
              drop (length ((pre_speech_buf v @ onset_buf v) @ frame) - ?m)
                   ((pre_speech_buf v @ onset_buf v) @ frame)"
      by (rule window_twice)
    show "process_frame v frame output =
              (v\<lparr>pre_speech_buf :=
                   drop (length (pre_speech_buf v @ onset_buf v @ frame)
                           - nat (pre_speech_max_samples v))
                        (pre_speech_buf v @ onset_buf v @ frame),
                 onset_buf := [], speech_sample_count := 0, state := silence\<rparr>, output)"
      using on1 h(1) unfolding a1 a2 tw by simp
  qed
  have off1: "state v = speech_offset \<longrightarrow>
            process_frame v frame output =
              (v\<lparr>post_speech_buf := [], silence_sample_count := 0, state := speaking\<rparr>,
               output @ post_speech_buf v @ frame)"
    using b by (simp add: in_band_def process_frame_def Let_def)
  have c12: "state v = speech_offset \<longrightarrow>
            process_frame v frame output =
              (v\<lparr>post_speech_buf := [], silence_sample_count := 0, state := speaking\<rparr>,
               output @ post_speech_buf v @ frame)
            \<and> process_frames v (frame # frames) output =
              (v\<lparr>post_speech_buf := [], silence_sample_count := 0, state := speaking\<rparr>,
               output @ post_speech_buf v @ concat (frame # frames))"
  proof
    assume h: "state v = speech_offset"
    let ?v' = "v\<lparr>post_speech_buf := [], silence_sample_count := 0, state := speaking\<rparr>"
    have s: "process_frame v frame output = (?v', output @ post_speech_buf v @ frame)"
      using off1 h by simp
    have r: "\<forall>g \<in> set frames. in_band ?v' g"
      using rest unfolding s by simp
    from band_run_speaking [OF r, of "output @ post_speech_buf v @ frame"]
    have "process_frames ?v' frames (output @ post_speech_buf v @ frame) =
            (?v', (output @ post_speech_buf v @ frame) @ concat frames)"
      by simp
    then show "process_frame v frame output =
              (v\<lparr>post_speech_buf := [], silence_sample_count := 0, state := speaking\<rparr>,
               output @ post_speech_buf v @ frame)
            \<and> process_frames v (frame # frames) output =
              (v\<lparr>post_speech_buf := [], silence_sample_count := 0, state := speaking\<rparr>,
               output @ post_speech_buf v @ concat (frame # frames))"
      using s by simp
  qed
  have c1: "state (fst (process_frame v frame output)) = band_state (state v)"
    using band_step_state [OF b] .
  have c2: "is_speaking (fst (process_frame v frame output)) = is_speaking v"
    using band_step_is_speaking [OF b] .
  have c3': "state v = silence \<longrightarrow>
            process_frame v frame output = (append_to_pre_speech v frame, output)
            \<and> state (append_to_pre_speech v frame) = silence"
    using c3 by (simp add: append_to_pre_speech_keeps)
  from c1 c2 c3' c4 c5 c6 c7 c8 c9 c10 c11 c12 show ?thesis
    by blast
qed

text \<open>
  With the default configuration at 16 kHz the window holds 3200 samples. Three frames in
  the band from \<open>silence\<close> and from \<open>speaking\<close>; a frame that finds 3000 samples in the
  window and leaves the last 2720 of them followed by its own 480; a frame in
  \<open>speech_onset\<close> and one in \<open>speech_offset\<close>.
\<close>

theorem hysteresis_band_witness:
  "in_band VoiceActivityDetector_init (replicate 480 (5 / 1000))
   \<and> state VoiceActivityDetector_init = silence
   \<and> state (fst (process_frames VoiceActivityDetector_init
        [replicate 480 (5 / 1000), replicate 480 (5 / 1000), replicate 480 (5 / 1000)] [])) = silence
   \<and> snd (process_frames VoiceActivityDetector_init
        [replicate 480 (5 / 1000), replicate 480 (5 / 1000), replicate 480 (5 / 1000)] []) = []
   \<and> process_frames (VoiceActivityDetector_init\<lparr>state := speaking, is_speaking := True\<rparr>)
        [replicate 480 (5 / 1000), replicate 480 (5 / 1000), replicate 480 (5 / 1000)] [] =
       (VoiceActivityDetector_init\<lparr>state := speaking, is_speaking := True\<rparr>,
        replicate 1440 (5 / 1000))
   \<and> pre_speech_max_samples VoiceActivityDetector_init = 3200
   \<and> process_frame (VoiceActivityDetector_init\<lparr>pre_speech_buf := replicate 3000 (1 / 1000)\<rparr>)
        (replicate 480 (5 / 1000)) [] =
       (VoiceActivityDetector_init
          \<lparr>pre_speech_buf := replicate 2720 (1 / 1000) @ replicate 480 (5 / 1000)\<rparr>, [])
   \<and> process_frames VoiceActivityDetector_init
        [replicate 480 (5 / 1000), replicate 480 (5 / 1000), replicate 480 (5 / 1000)] [] =
       (VoiceActivityDetector_init\<lparr>pre_speech_buf := replicate 1440 (5 / 1000)\<rparr>, [])
   \<and> process_frame
        (VoiceActivityDetector_init\<lparr>state := speech_onset, onset_buf := replicate 480 (1 / 100),
           speech_sample_count := 480\<rparr>)
        (replicate 480 (5 / 1000)) [] =
       (VoiceActivityDetector_init
          \<lparr>pre_speech_buf := replicate 480 (1 / 100) @ replicate 480 (5 / 1000)\<rparr>, [])
   \<and> process_frame
        (VoiceActivityDetector_init\<lparr>state := speech_offset, is_speaking := True,
           post_speech_buf := replicate 480 0, silence_sample_count := 480\<rparr>)
        (replicate 480 (5 / 1000)) [] =
       (VoiceActivityDetector_init\<lparr>state := speaking, is_speaking := True\<rparr>,
        replicate 480 0 @ replicate 480 (5 / 1000))"
proof -
  let ?f = "replicate 480 (5 / 1000 :: real)"
  let ?sp = "VoiceActivityDetector_init\<lparr>state := speaking, is_speaking := True\<rparr>"
  let ?w = "VoiceActivityDetector_init\<lparr>pre_speech_buf := replicate 3000 (1 / 1000)\<rparr>"
  let ?on = "VoiceActivityDetector_init\<lparr>state := speech_onset, onset_buf := replicate 480 (1 / 100),
           speech_sample_count := 480\<rparr>"
  let ?off = "VoiceActivityDetector_init\<lparr>state := speech_offset, is_speaking := True,
           post_speech_buf := replicate 480 0, silence_sample_count := 480\<rparr>"
  have h1: "\<forall>f \<in> set (?f # [?f, ?f]). in_band VoiceActivityDetector_init f"
    by (simp add: in_band_def compute_rms_replicate VoiceActivityDetector_init_def)
  have h2: "\<forall>f \<in> set (?f # [?f, ?f]). in_band ?sp f"
    by (simp add: in_band_def compute_rms_replicate VoiceActivityDetector_init_def)
  have h3: "\<forall>f \<in> set (?f # []). in_band ?w f"
    by (simp add: in_band_def compute_rms_replicate VoiceActivityDetector_init_def)
  have h4: "\<forall>f \<in> set (?f # []). in_band ?on f"
    by (simp add: in_band_def compute_rms_replicate VoiceActivityDetector_init_def)
  have h5: "\<forall>f \<in> set (?f # []). in_band ?off f"
    by (simp add: in_band_def compute_rms_replicate VoiceActivityDetector_init_def)
  have s1: "state VoiceActivityDetector_init = silence"
    by (simp add: VoiceActivityDetector_init_def)
  have s2: "state ?sp = speaking"
    by simp
  have mx: "pre_speech_max_samples VoiceActivityDetector_init = 3200"
    by (simp add: pre_speech_max_samples_def VoiceActivityDetector_init_def signed_divide_int_def)
  have c: "concat (?f # [?f, ?f]) = replicate 1440 (5 / 1000)"
    by (simp add: replicate_add [symmetric])
  from hysteresis_band [OF h1, of "[]"] s1
  have r1: "state (fst (process_frames VoiceActivityDetector_init (?f # [?f, ?f]) [])) = silence
            \<and> snd (process_frames VoiceActivityDetector_init (?f # [?f, ?f]) []) = []"
    by blast
  from hysteresis_band [OF h2, of "[]"] s2
  have r2: "process_frames ?sp (?f # [?f, ?f]) [] = (?sp, [] @ concat (?f # [?f, ?f]))"
    by blast
  have p3: "state ?w = silence \<and> 0 \<le> pre_speech_max_samples ?w
            \<and> length (pre_speech_buf ?w @ ?f) < 2 ^ 31"
    by (simp add: pre_speech_max_samples_def VoiceActivityDetector_init_def signed_divide_int_def)
  from hysteresis_band [OF h3, of "[]"] p3
  have "process_frame ?w ?f [] =
          (?w\<lparr>pre_speech_buf :=
               drop (length (pre_speech_buf ?w @ ?f) - nat (pre_speech_max_samples ?w))
                    (pre_speech_buf ?w @ ?f)\<rparr>, [])"
    by blast
  then have r3: "process_frame ?w ?f [] =
       (VoiceActivityDetector_init
          \<lparr>pre_speech_buf := replicate 2720 (1 / 1000) @ replicate 480 (5 / 1000)\<rparr>, [])"
    by (simp add: pre_speech_max_samples_def VoiceActivityDetector_init_def signed_divide_int_def)
  have p6: "state VoiceActivityDetector_init = silence
            \<and> 0 \<le> pre_speech_max_samples VoiceActivityDetector_init
            \<and> length (pre_speech_buf VoiceActivityDetector_init @ concat (?f # [?f, ?f])) < 2 ^ 31"
    by (simp add: pre_speech_max_samples_def VoiceActivityDetector_init_def signed_divide_int_def)
  from hysteresis_band [OF h1, of "[]"] p6
  have "process_frames VoiceActivityDetector_init (?f # [?f, ?f]) [] =
          (VoiceActivityDetector_init\<lparr>pre_speech_buf :=
               drop (length (pre_speech_buf VoiceActivityDetector_init @ concat (?f # [?f, ?f]))
                       - nat (pre_speech_max_samples VoiceActivityDetector_init))
                    (pre_speech_buf VoiceActivityDetector_init @ concat (?f # [?f, ?f]))\<rparr>, [])"
    by blast
  then have r6: "process_frames VoiceActivityDetector_init (?f # [?f, ?f]) [] =
       (VoiceActivityDetector_init\<lparr>pre_speech_buf := replicate 1440 (5 / 1000)\<rparr>, [])"
    unfolding c mx by (simp add: VoiceActivityDetector_init_def del: process_frames.simps)
  have p4: "state ?on = speech_onset \<and> 0 \<le> pre_speech_max_samples ?on
            \<and> length (pre_speech_buf ?on @ onset_buf ?on @ ?f) < 2 ^ 31"
    by (simp add: pre_speech_max_samples_def VoiceActivityDetector_init_def signed_divide_int_def)
  from hysteresis_band [OF h4, of "[]"] p4
  have "process_frame ?on ?f [] =
          (?on\<lparr>pre_speech_buf :=
                 drop (length (pre_speech_buf ?on @ onset_buf ?on @ ?f)
                         - nat (pre_speech_max_samples ?on))
                      (pre_speech_buf ?on @ onset_buf ?on @ ?f),
               onset_buf := [], speech_sample_count := 0, state := silence\<rparr>, [])"
    by blast
  then have r4: "process_frame ?on ?f [] =
       (VoiceActivityDetector_init
          \<lparr>pre_speech_buf := replicate 480 (1 / 100) @ replicate 480 (5 / 1000)\<rparr>, [])"
    by (simp add: pre_speech_max_samples_def VoiceActivityDetector_init_def signed_divide_int_def)
  have p5: "state ?off = speech_offset"
    by simp
  from hysteresis_band [OF h5, of "[]"] p5
  have "process_frame ?off ?f [] =
          (?off\<lparr>post_speech_buf := [], silence_sample_count := 0, state := speaking\<rparr>,
           [] @ post_speech_buf ?off @ ?f)"
    by blast
  then have r5: "process_frame ?off ?f [] = (?sp, replicate 480 0 @ ?f)"
    by (simp add: VoiceActivityDetector_init_def)
  show ?thesis
    using h1 s1 r1 r2 mx r3 r6 r4 r5 unfolding c by (simp del: process_frames.simps)
qed

section \<open>Resampler\<close>

subsection \<open>Rounding\<close>

lemma pow2_pos: "0 < pow2 s"
  by (simp add: pow2_def)

lemma pow2_powr: "pow2 s = 2 powr real_of_int s"
proof (cases "0 \<le> s")
  case True
  then show ?thesis
    by (simp add: pow2_def powr_realpow [symmetric])
next
  case False
  then have "real_of_int s = - real (nat (- s))" by simp
  then have "2 powr real_of_int s = 2 powr (- real (nat (- s)))" by (simp only:)
  also have "\<dots> = 1 / 2 powr real (nat (- s))" by (simp only: powr_minus_divide)
  also have "\<dots> = 1 / 2 ^ nat (- s)" by (simp only: powr_realpow [of 2, simplified])
  finally show ?thesis
    using False by (simp add: pow2_def)
qed

lemma pow2_add: "pow2 (a + b) = pow2 a * pow2 b"
  by (simp add: pow2_powr powr_add)

lemma pow2_nonpos: "s \<le> 0 \<Longrightarrow> pow2 s = 1 / 2 ^ nat (- s)"
  by (cases "s = 0") (simp_all add: pow2_def)

lemma binade_bounds:
  assumes "0 < a"
  shows "pow2 (binade a) \<le> a \<and> a < pow2 (binade a + 1)"
proof (cases "1 \<le> a")
  case True
  let ?m = "\<lfloor>a\<rfloor>"
  have m: "0 < ?m" using True by simp
  from bitlen_bounds [OF m]
  have lo: "2 ^ nat (bitlen ?m - 1) \<le> ?m" and hi: "?m < 2 ^ nat (bitlen ?m)"
    by simp_all
  have b1: "1 \<le> bitlen ?m"
    using m by (simp add: bitlen_alt_def)
  have "real_of_int (2 ^ nat (bitlen ?m - 1)) \<le> real_of_int ?m"
    using lo by linarith
  moreover have "real_of_int ?m \<le> a" by simp
  ultimately have "real_of_int (2 ^ nat (bitlen ?m - 1)) \<le> a" by linarith
  then have 1: "2 ^ nat (bitlen ?m - 1) \<le> a"
    by simp
  have "?m + 1 \<le> 2 ^ nat (bitlen ?m)"
    using hi by simp
  then have "real_of_int (?m + 1) \<le> real_of_int (2 ^ nat (bitlen ?m))"
    by linarith
  moreover have "a < real_of_int (?m + 1)" by simp
  ultimately have "a < real_of_int (2 ^ nat (bitlen ?m))" by linarith
  then have 2: "a < 2 ^ nat (bitlen ?m)"
    by simp
  show ?thesis
    using True b1 1 2 by (simp add: binade_def pow2_def)
next
  case False
  let ?z = "\<lceil>1 / a\<rceil> - 1"
  have inv: "1 < 1 / a" using assms False by simp
  then have z: "0 < ?z" by (simp add: less_ceiling_iff)
  from bitlen_bounds [OF z]
  have lo: "2 ^ nat (bitlen ?z - 1) \<le> ?z" and hi: "?z < 2 ^ nat (bitlen ?z)"
    by simp_all
  have b1: "1 \<le> bitlen ?z"
    using z by (simp add: bitlen_alt_def)
  have "?z + 1 \<le> 2 ^ nat (bitlen ?z)"
    using hi by simp
  then have "real_of_int (?z + 1) \<le> real_of_int (2 ^ nat (bitlen ?z))"
    by linarith
  moreover have "1 / a \<le> real_of_int (?z + 1)"
    using le_of_int_ceiling [of "1 / a"] by simp
  ultimately have "1 / a \<le> real_of_int (2 ^ nat (bitlen ?z))"
    by linarith
  then have "1 / a \<le> 2 ^ nat (bitlen ?z)"
    by simp
  then have 1: "1 / 2 ^ nat (bitlen ?z) \<le> a"
    using assms by (simp add: field_simps)
  have "real_of_int ?z < 1 / a"
    using ceiling_correct [of "1 / a"] by simp
  moreover have "real_of_int (2 ^ nat (bitlen ?z - 1)) \<le> real_of_int ?z"
    using lo by linarith
  ultimately have "2 ^ nat (bitlen ?z - 1) < 1 / a"
    by simp
  then have 2: "a < 1 / 2 ^ nat (bitlen ?z - 1)"
    using assms by (simp add: field_simps)
  have e: "binade a = - bitlen ?z"
    using False by (simp add: binade_def)
  have p1: "pow2 (- bitlen ?z) = 1 / 2 ^ nat (bitlen ?z)"
    using b1 by (simp add: pow2_nonpos)
  have p2: "pow2 (- bitlen ?z + 1) = 1 / 2 ^ nat (bitlen ?z - 1)"
    using b1 pow2_nonpos [of "- bitlen ?z + 1"] by simp
  show ?thesis
    unfolding e p1 p2 using 1 2 by simp
qed

lemma round_even_of_int: "round_even (of_int w) = w"
  by (simp add: round_even_def)

lemma round_even_ge: "of_int w \<le> y \<Longrightarrow> w \<le> round_even y"
proof -
  assume "of_int w \<le> y"
  then have "w \<le> \<lfloor>y\<rfloor>" by (simp add: le_floor_iff)
  then show ?thesis by (simp add: round_even_def)
qed

lemma round_even_le: "real_of_int (round_even y) \<le> y + 1 / 2"
  unfolding round_even_def by (simp; linarith)

lemma pow2_le_imp: "pow2 a \<le> pow2 b \<Longrightarrow> a \<le> b"
  by (simp add: pow2_powr)

lemma pow2_mono: "a \<le> b \<Longrightarrow> pow2 a \<le> pow2 b"
  by (simp add: pow2_powr)

lemma binade_ge:
  assumes "0 < a" and "pow2 e \<le> a"
  shows "e \<le> binade a"
proof -
  have "a < pow2 (binade a + 1)"
    using binade_bounds [OF assms(1)] by simp
  then have "pow2 e < pow2 (binade a + 1)"
    using assms(2) by linarith
  then have "e < binade a + 1"
    by (simp add: pow2_powr)
  then show ?thesis by simp
qed

lemma fl_zero: "fl p emin 0 = 0"
  by (simp add: fl_def)

lemma binade_of_int: "0 < z \<Longrightarrow> binade (of_int z) = bitlen z - 1"
  by (simp add: binade_def)

lemma bitlen_le: 
  assumes "0 < z" and "z < 2 ^ n"
  shows "bitlen z \<le> int n"
proof -
  from bitlen_bounds [OF assms(1)] have "(2::int) ^ nat (bitlen z - 1) \<le> z" by simp
  then have "(2::int) ^ nat (bitlen z - 1) < 2 ^ n" using assms(2) by linarith
  then have "nat (bitlen z - 1) < n" by simp
  then show ?thesis by linarith
qed

lemma fl_of_int:
  assumes "\<bar>z\<bar> < 2 ^ nat p" and emin: "emin \<le> 0"
  shows "fl p emin (of_int z) = of_int z"
proof (cases "z = 0")
  case True
  then show ?thesis by (simp add: fl_zero)
next
  case False
  then have pos: "0 < \<bar>z\<bar>" by simp
  have e: "binade \<bar>real_of_int z\<bar> = bitlen \<bar>z\<bar> - 1"
    using binade_of_int [OF pos] by simp
  have "bitlen \<bar>z\<bar> \<le> int (nat p)"
    using pos assms(1) by (rule bitlen_le)
  moreover have "0 < p" using assms(1) pos by (cases "0 < p") auto
  ultimately have s: "bitlen \<bar>z\<bar> - 1 - p + 1 \<le> 0" by simp
  have "1 \<le> bitlen \<bar>z\<bar>"
    using pos by (simp add: bitlen_alt_def)
  then have mx: "max (bitlen \<bar>z\<bar> - 1) emin = bitlen \<bar>z\<bar> - 1"
    using emin by simp
  let ?j = "nat (- (bitlen \<bar>z\<bar> - 1 - p + 1))"
  have u: "pow2 (bitlen \<bar>z\<bar> - 1 - p + 1) = 1 / 2 ^ ?j"
    using s by (rule pow2_nonpos)
  have q: "real_of_int z / (1 / 2 ^ ?j) = of_int (z * 2 ^ ?j)"
    by simp
  show ?thesis
    using False unfolding fl_def e mx u q round_even_of_int by simp
qed

lemma floor_fl_quotient:
  assumes "0 < k" and "n < 2 ^ nat p" and "0 < p"
      and normal: "pow2 emin \<le> 1 / real k"
  shows "\<lfloor>fl p emin (real n / real k)\<rfloor> = int (n div k)"
proof (cases "n = 0")
  case True
  then show ?thesis by (simp add: fl_zero)
next
  case False
  let ?x = "real n / real k"
  let ?m = "n div k"
  have x: "0 < ?x" using False assms(1) by simp
  let ?s = "binade \<bar>?x\<bar> - p + 1"
  let ?u = "pow2 ?s"
  let ?r = "round_even (?x / ?u)"
  have "1 / real k \<le> ?x"
    using False assms(1) by (simp add: divide_right_mono)
  then have "pow2 emin \<le> \<bar>?x\<bar>"
    using normal by linarith
  then have "emin \<le> binade \<bar>?x\<bar>"
    using x by (intro binade_ge) simp_all
  then have mx: "max (binade \<bar>?x\<bar>) emin = binade \<bar>?x\<bar>"
    by simp
  have flx: "fl p emin ?x = of_int ?r * ?u"
    using False assms(1) unfolding fl_def mx by simp
  have u: "0 < ?u" by (rule pow2_pos)
  have fx: "\<lfloor>?x\<rfloor> = int ?m"
    by (rule floor_divide_of_nat_eq)
  \<comment> \<open>upper bound\<close>
  have "n = ?m * k + n mod k" by simp
  moreover have "n mod k < k" using assms(1) by simp
  ultimately have "n + 1 \<le> ?m * k + k" using assms(1) by linarith
  then have "real n + 1 \<le> real ?m * real k + real k"
    by (metis of_nat_1 of_nat_add of_nat_le_iff of_nat_mult)
  then have xk: "?x \<le> real ?m + 1 - 1 / real k"
    using assms(1) by (simp add: field_simps)
  have be: "pow2 (binade ?x) \<le> ?x"
    using binade_bounds [OF x] by simp
  have "?s = binade ?x + (1 - p)"
    using x by simp
  then have "?u = pow2 (binade ?x) * pow2 (1 - p)"
    by (simp only: pow2_add)
  also have "pow2 (1 - p) = 2 / 2 ^ nat p"
    using assms(3) pow2_nonpos [of "1 - p"]
    by (simp add: nat_diff_distrib power_diff)
  finally have ueq: "?u = pow2 (binade ?x) * (2 / 2 ^ nat p)" .
  have "pow2 (binade ?x) * (2 / 2 ^ nat p) \<le> ?x * (2 / 2 ^ nat p)"
    using be by (intro mult_right_mono) simp_all
  then have "?u \<le> ?x * (2 / 2 ^ nat p)"
    by (simp only: ueq)
  then have "?u / 2 \<le> ?x / 2 ^ nat p" by simp
  also have "\<dots> = real n / 2 ^ nat p / real k" by simp
  also have "\<dots> < 1 / real k"
  proof -
    have "real n < 2 ^ nat p"
      using assms(2) by (metis of_nat_less_iff of_nat_numeral of_nat_power)
    then have "real n / 2 ^ nat p < 1" by simp
    moreover have "0 < 1 / real k" using assms(1) by simp
    ultimately have "real n / 2 ^ nat p * (1 / real k) < 1 * (1 / real k)"
      by (intro mult_strict_right_mono)
    then show ?thesis by simp
  qed
  finally have uh: "?u / 2 < 1 / real k" .
  have "of_int ?r * ?u \<le> (?x / ?u + 1 / 2) * ?u"
    using round_even_le [of "?x / ?u"] u by (simp add: mult_right_mono)
  also have "\<dots> = ?x + ?u / 2"
    using u by (simp add: field_simps)
  finally have "fl p emin ?x \<le> ?x + ?u / 2" unfolding flx .
  then have up: "fl p emin ?x < real ?m + 1"
    using xk uh by linarith
  \<comment> \<open>lower bound\<close>
  have lo: "real ?m \<le> fl p emin ?x"
  proof (cases "?m = 0")
    case True
    have "0 \<le> ?r" using x u by (intro round_even_ge) simp
    then show ?thesis using True u unfolding flx by simp
  next
    case m: False
    then have m1: "0 < int ?m" by simp
    have "k \<le> n" using m by (cases "n < k") simp_all
    then have x1: "1 \<le> ?x" using assms(1) by (simp add: le_divide_eq)
    have e: "binade \<bar>?x\<bar> = bitlen (int ?m) - 1"
      using x x1 fx by (simp add: binade_def)
    have "?m \<le> n" by simp
    then have "int ?m < 2 ^ nat p" using assms(2) by (metis le_less_trans of_nat_less_iff of_nat_numeral of_nat_power)
    then have "bitlen (int ?m) \<le> int (nat p)" using m1 by (intro bitlen_le)
    then have s: "bitlen (int ?m) - 1 - p + 1 \<le> 0" using assms(3) by simp
    let ?j = "nat (- (bitlen (int ?m) - 1 - p + 1))"
    have uu: "?u = 1 / 2 ^ ?j"
      unfolding e using s by (rule pow2_nonpos)
    have "real_of_int (int ?m * 2 ^ ?j) \<le> ?x / ?u"
    proof -
      have "real ?m \<le> ?x" using fx by (metis of_int_floor_le of_int_of_nat_eq)
      then have "real ?m * 2 ^ ?j \<le> ?x * 2 ^ ?j"
        by (intro mult_right_mono) simp_all
      then show ?thesis unfolding uu by simp
    qed
    then have "int ?m * 2 ^ ?j \<le> ?r" by (rule round_even_ge)
    then have "real_of_int (int ?m * 2 ^ ?j) \<le> real_of_int ?r" by linarith
    then have le: "real_of_int (int ?m * 2 ^ ?j) * ?u \<le> real_of_int ?r * ?u"
      using u by (simp add: mult_right_mono)
    have eq: "real_of_int (int ?m * 2 ^ ?j) * ?u = real ?m"
      by (subst uu) simp
    show ?thesis
      using le unfolding flx eq .
  qed
  from lo up show ?thesis
    by (simp add: floor_eq_iff)
qed

lemma fl64_of_nat: "n < 2 ^ 53 \<Longrightarrow> fl64 (real n) = real n"
  using fl_of_int [of "int n" 53 "- 1022"] by (simp add: fl64_def)

lemma fl64_zero: "fl64 0 = 0"
  by (simp add: fl64_def fl_zero)

lemma fl32_zero: "fl32 0 = 0"
  by (simp add: fl32_def fl_zero)

lemma fl32_one: "fl32 1 = 1"
  using fl_of_int [of 1 24 "- 126"] by (simp add: fl32_def)

lemma floor_fl64_quotient:
  assumes "0 < k" and "k < 2 ^ 53" and "n < 2 ^ 53"
  shows "\<lfloor>fl64 (real n / real k)\<rfloor> = int (n div k)"
proof -
  have "real k \<le> 2 ^ 53"
    using assms(2) by (metis less_imp_le of_nat_le_iff of_nat_numeral of_nat_power)
  also have "(2::real) ^ 53 \<le> 2 ^ 1022"
    by (rule power_increasing) simp_all
  finally have "1 / (2::real) ^ 1022 \<le> 1 / real k"
    using assms(1) by (simp add: frac_le)
  moreover have "pow2 (- 1022) = 1 / 2 ^ 1022"
    by (simp add: pow2_def)
  ultimately have "pow2 (- 1022) \<le> 1 / real k"
    by simp
  then show ?thesis
    using floor_fl_quotient [of k n 53 "- 1022"] assms(1,3) by (simp add: fl64_def)
qed

subsection \<open>Length and samples\<close>

lemma resample_length:
  "from_rate \<noteq> to_rate \<Longrightarrow>
     length (resample input from_rate to_rate) =
       nat \<lfloor>fl64 (fl64 (real (length input)) / fl64 (from_rate / to_rate))\<rfloor>"
  by (simp add: resample_def Let_def fl64_zero)

lemma resample_nth:
  assumes "from_rate \<noteq> to_rate" and "i < length (resample input from_rate to_rate)"
  shows "resample input from_rate to_rate ! i =
           fl32 (fl32 (input ! nat \<lfloor>fl64 (fl64 (real i) * fl64 (from_rate / to_rate))\<rfloor>
                         * fl32 (1 - fl32 (fl64 (fl64 (fl64 (real i) * fl64 (from_rate / to_rate))
                              - fl64 (real (nat \<lfloor>fl64 (fl64 (real i) * fl64 (from_rate / to_rate))\<rfloor>))))))
                 + fl32 (input ! min (nat \<lfloor>fl64 (fl64 (real i) * fl64 (from_rate / to_rate))\<rfloor> + 1)
                                      (length input - 1)
                         * fl32 (fl64 (fl64 (fl64 (real i) * fl64 (from_rate / to_rate))
                              - fl64 (real (nat \<lfloor>fl64 (fl64 (real i) * fl64 (from_rate / to_rate))\<rfloor>))))))"
proof -
  have len: "i < nat \<lfloor>fl64 (fl64 (real (length input)) / fl64 (from_rate / to_rate))\<rfloor>"
    using assms by (simp add: resample_length)
  then have "input \<noteq> []"
    and "nat \<lfloor>fl64 (fl64 (real (length input)) / fl64 (from_rate / to_rate))\<rfloor> \<noteq> 0"
    by (auto simp: fl64_zero)
  then show ?thesis
    using assms(1) len by (simp add: resample_def Let_def)
qed

text \<open>
  When \<open>from_rate\<close> is \<open>k\<close> times \<open>to_rate\<close> for a whole number \<open>k\<close>, every intermediate
  value is a whole number below \<open>2^53\<close> or zero, the fraction is zero, and output sample \<open>i\<close>
  is input sample \<open>i * k\<close> rounded to \<^verbatim>\<open>float\<close>.
\<close>

lemma resample_integer_ratio:
  assumes k: "2 \<le> k" "k < 2 ^ 53" and t: "0 < to_rate" and f: "from_rate = real k * to_rate"
      and n: "length input < 2 ^ 53"
  shows "resample input from_rate to_rate =
           map (\<lambda>i. fl32 (fl32 (input ! (i * k)))) [0..<length input div k]"
proof -
  have ne: "from_rate \<noteq> to_rate"
    using k(1) t f by simp
  have q: "from_rate / to_rate = real k"
    using t f by simp
  have ratio: "fl64 (from_rate / to_rate) = real k"
    unfolding q using k(2) by (rule fl64_of_nat)
  have size: "fl64 (real (length input)) = real (length input)"
    using n by (rule fl64_of_nat)
  have len: "length (resample input from_rate to_rate) = length input div k"
    using k n unfolding resample_length [OF ne] ratio size
    by (simp add: floor_fl64_quotient)
  have "resample input from_rate to_rate ! i = fl32 (fl32 (input ! (i * k)))"
    if i: "i < length input div k" for i
  proof -
    have "i * k + k \<le> length input div k * k"
      using i by (metis Suc_leI mult_Suc mult_le_mono1 add.commute)
    also have "\<dots> \<le> length input"
      by simp
    finally have ik: "i * k < length input"
      using k(1) by simp
    then have ik53: "i * k < 2 ^ 53"
      using n by simp
    have "i * 1 \<le> i * k"
      using k(1) by (intro mult_le_mono2) simp
    then have "i \<le> i * k"
      by simp
    then have "i < 2 ^ 53"
      using ik53 by (rule le_less_trans)
    then have ci: "fl64 (real i) = real i"
      by (rule fl64_of_nat)
    have src: "fl64 (real i * real k) = real (i * k)"
      using fl64_of_nat [OF ik53] by simp
    have idx: "nat \<lfloor>real (i * k)\<rfloor> = i * k"
      by (metis floor_of_nat nat_int)
    have c0: "fl64 (real (i * k)) = real (i * k)"
      using ik53 by (rule fl64_of_nat)
    have i': "i < length (resample input from_rate to_rate)"
      using i len by simp
    show ?thesis
      unfolding resample_nth [OF ne i'] ratio ci src idx c0
      by (simp add: fl64_zero fl32_zero fl32_one)
  qed
  then show ?thesis
    using len by (simp add: list_eq_iff_nth_eq)
qed

lemma resample_decimate:
  assumes "2 \<le> k" "k < 2 ^ 53" and "0 < to_rate" and "from_rate = real k * to_rate"
      and "length input < 2 ^ 53" and fl: "\<forall>s \<in> set input. fl32 s = s"
  shows "resample input from_rate to_rate = map (\<lambda>i. input ! (i * k)) [0..<length input div k]"
proof -
  have "fl32 (fl32 (input ! (i * k))) = input ! (i * k)" if "i < length input div k" for i
  proof -
    have "i * k + k \<le> length input div k * k"
      using that by (metis Suc_leI mult_Suc mult_le_mono1 add.commute)
    also have "\<dots> \<le> length input"
      by simp
    finally have "i * k < length input"
      using assms(1) by simp
    then have "input ! (i * k) \<in> set input"
      by simp
    then show ?thesis
      using fl by simp
  qed
  then show ?thesis
    unfolding resample_integer_ratio [OF assms(1-5)] by simp
qed

lemma resample_replicate_48000:
  assumes "n < 2 ^ 53"
  shows "resample (replicate n c) 48000 16000 = replicate (n div 3) (fl32 (fl32 c))"
proof -
  have "resample (replicate n c) 48000 16000 =
          map (\<lambda>i. fl32 (fl32 (replicate n c ! (i * 3)))) [0..<length (replicate n c) div 3]"
    using assms by (intro resample_integer_ratio) simp_all
  also have "\<dots> = replicate (n div 3) (fl32 (fl32 c))"
  proof (rule nth_equalityI)
    show "length (map (\<lambda>i. fl32 (fl32 (replicate n c ! (i * 3)))) [0..<length (replicate n c) div 3]) =
            length (replicate (n div 3) (fl32 (fl32 c)))"
      by simp
  next
    fix i
    assume "i < length (map (\<lambda>i. fl32 (fl32 (replicate n c ! (i * 3)))) [0..<length (replicate n c) div 3])"
    then have i: "i < n div 3" by simp
    then have "i * 3 + 3 \<le> n div 3 * 3" by simp
    also have "\<dots> \<le> n" by simp
    finally have "i * 3 < n" by simp
    then show "map (\<lambda>i. fl32 (fl32 (replicate n c ! (i * 3)))) [0..<length (replicate n c) div 3] ! i =
            replicate (n div 3) (fl32 (fl32 c)) ! i"
      using i by simp
  qed
  finally show ?thesis .
qed

subsection \<open>Rates that round\<close>

text \<open>
  Nine samples from rate 9 to rate 7: the quotient \<open>9 / 7\<close> rounds up in \<^verbatim>\<open>double\<close>, \<open>9\<close>
  divided by it rounds to the double just below 7, and the output has 6 samples, where
  \<open>\<lfloor>9 / (9 / 7)\<rfloor>\<close> is 7. Three samples of \<open>13421773 / 2^27\<close>, which is \<^verbatim>\<open>0.1f\<close>, from rate 4 to
  rate 3: the second output sample is \<open>3355443 / 2^25\<close>, the \<^verbatim>\<open>float\<close> just below.
\<close>

theorem resample_rounding_counterexample:
  "length (resample (replicate 9 0) 9 7) = 6
   \<and> nat \<lfloor>real 9 / (9 / 7)\<rfloor> = 7
   \<and> fl32 (13421773 / 134217728) = 13421773 / 134217728
   \<and> length (resample [13421773 / 134217728, 13421773 / 134217728, 13421773 / 134217728] 4 3) = 2
   \<and> resample [13421773 / 134217728, 13421773 / 134217728, 13421773 / 134217728] 4 3 ! 1 =
       3355443 / 33554432
   \<and> (3355443 / 33554432 :: real) \<noteq> 13421773 / 134217728"
proof -
  let ?c = "13421773 / 134217728 :: real"
  let ?R = "6004799503160661 / 4503599627370496 :: real"
  let ?F = "11184811 / 33554432 :: real"
  have n9: "nat \<lfloor>fl64 (fl64 (real (length (replicate 9 (0::real)))) / fl64 (9 / 7))\<rfloor> = 6"
    by code_simp
  have l9: "length (resample (replicate 9 0) 9 7) = 6"
    using resample_length [of 9 7 "replicate 9 0"] unfolding n9 by simp
  have exact: "nat \<lfloor>real 9 / (9 / 7)\<rfloor> = 7"
    by simp
  have c: "fl32 ?c = ?c"
    by code_simp
  have n3: "nat \<lfloor>fl64 (fl64 (real (length [?c, ?c, ?c])) / fl64 (4 / 3))\<rfloor> = 2"
    by code_simp
  have l3: "length (resample [?c, ?c, ?c] 4 3) = 2"
    using resample_length [of 4 3 "[?c, ?c, ?c]"] unfolding n3 by simp
  have e1: "fl64 (fl64 (real (1::nat)) * fl64 (4 / 3)) = ?R"
    by code_simp
  have e2: "nat \<lfloor>?R\<rfloor> = 1"
    by code_simp
  have e3: "fl32 (fl64 (?R - fl64 (real (1::nat)))) = ?F"
    by code_simp
  have e4: "[?c, ?c, ?c] ! (1::nat) = ?c"
    by simp
  have e5: "[?c, ?c, ?c] ! min (1 + 1) (length [?c, ?c, ?c] - 1) = ?c"
    by simp
  have e6: "fl32 (fl32 (?c * fl32 (1 - ?F)) + fl32 (?c * ?F)) = 3355443 / 33554432"
    by code_simp
  have i: "1 < length (resample [?c, ?c, ?c] 4 3)"
    unfolding l3 by simp
  have ne: "(4::real) \<noteq> 3"
    by simp
  have v: "resample [?c, ?c, ?c] 4 3 ! 1 = 3355443 / 33554432"
    unfolding resample_nth [OF ne i] e1 e2 e3 e4 e5 e6 ..
  show ?thesis
    using l9 exact c l3 v by simp
qed

text \<open>
  C7, amended. When the rates are equal or the input is empty the output is the input.
  Otherwise, where the rounded ratio is positive and the output count is below \<open>2^64\<close>, the
  output has \<open>\<lfloor>length input / ratio\<rfloor>\<close> samples, where the ratio \<open>from_rate / to_rate\<close> and the
  quotient by it are rounded to \<^verbatim>\<open>double\<close>, and sample \<open>i\<close> is the linear interpolation
  between the input samples at \<open>idx0\<close>, the floor of the source index \<open>i * ratio\<close> rounded to
  \<^verbatim>\<open>double\<close>, and at \<open>min (idx0 + 1) (length input - 1)\<close>, with the fraction, both products
  and the sum rounded to \<^verbatim>\<open>float\<close>. When \<open>from_rate\<close> is a whole multiple \<open>k \<ge> 2\<close> of
  \<open>to_rate\<close>, as in the only call the program makes (48000 to 16000), and the input samples
  are \<^verbatim>\<open>float\<close> values, nothing is rounded: the output has exactly
  \<open>\<lfloor>length input / (from_rate / to_rate)\<rfloor>\<close> samples, sample \<open>i\<close> is input sample \<open>i * k\<close>,
  which lies inside the input, and an input whose samples all equal \<open>c\<close> gives an output
  whose samples all equal \<open>c\<close>.
\<close>

theorem resample_correct:
  "(from_rate = to_rate \<or> input = [] \<longrightarrow> resample input from_rate to_rate = input)
   \<and> (from_rate \<noteq> to_rate \<and> 0 < fl64 (from_rate / to_rate)
        \<and> fl64 (fl64 (real (length input)) / fl64 (from_rate / to_rate)) < 2 ^ 64 \<longrightarrow>
        length (resample input from_rate to_rate) =
          nat \<lfloor>fl64 (fl64 (real (length input)) / fl64 (from_rate / to_rate))\<rfloor>
        \<and> (\<forall>i < length (resample input from_rate to_rate).
           resample input from_rate to_rate ! i =
             fl32 (fl32 (input ! nat \<lfloor>fl64 (fl64 (real i) * fl64 (from_rate / to_rate))\<rfloor>
                           * fl32 (1 - fl32 (fl64 (fl64 (fl64 (real i) * fl64 (from_rate / to_rate))
                                - fl64 (real (nat \<lfloor>fl64 (fl64 (real i) * fl64 (from_rate / to_rate))\<rfloor>))))))
                   + fl32 (input ! min (nat \<lfloor>fl64 (fl64 (real i) * fl64 (from_rate / to_rate))\<rfloor> + 1)
                                        (length input - 1)
                           * fl32 (fl64 (fl64 (fl64 (real i) * fl64 (from_rate / to_rate))
                                - fl64 (real (nat \<lfloor>fl64 (fl64 (real i) * fl64 (from_rate / to_rate))\<rfloor>))))))))
   \<and> (2 \<le> k \<and> k < 2 ^ 53 \<and> 0 < to_rate \<and> from_rate = real k * to_rate
        \<and> length input < 2 ^ 53 \<and> (\<forall>s \<in> set input. fl32 s = s) \<longrightarrow>
        resample input from_rate to_rate = map (\<lambda>i. input ! (i * k)) [0..<length input div k]
        \<and> length (resample input from_rate to_rate) =
            nat \<lfloor>real (length input) / (from_rate / to_rate)\<rfloor>
        \<and> (\<forall>i < length (resample input from_rate to_rate).
              i * k < length input \<and> resample input from_rate to_rate ! i = input ! (i * k))
        \<and> ((\<forall>x \<in> set input. x = c) \<longrightarrow> (\<forall>y \<in> set (resample input from_rate to_rate). y = c)))"
proof -
  have id: "from_rate = to_rate \<or> input = [] \<longrightarrow> resample input from_rate to_rate = input"
    by (simp add: resample_def)
  have whole: "resample input from_rate to_rate = map (\<lambda>i. input ! (i * k)) [0..<length input div k]
        \<and> length (resample input from_rate to_rate) =
            nat \<lfloor>real (length input) / (from_rate / to_rate)\<rfloor>
        \<and> (\<forall>i < length (resample input from_rate to_rate).
              i * k < length input \<and> resample input from_rate to_rate ! i = input ! (i * k))
        \<and> ((\<forall>x \<in> set input. x = c) \<longrightarrow> (\<forall>y \<in> set (resample input from_rate to_rate). y = c))"
    if h: "2 \<le> k" "k < 2 ^ 53" "0 < to_rate" "from_rate = real k * to_rate"
          "length input < 2 ^ 53" "\<forall>s \<in> set input. fl32 s = s"
  proof -
    have eq: "resample input from_rate to_rate = map (\<lambda>i. input ! (i * k)) [0..<length input div k]"
      using h by (rule resample_decimate)
    have q: "from_rate / to_rate = real k"
      using h(3,4) by simp
    have len: "length (resample input from_rate to_rate) =
                 nat \<lfloor>real (length input) / (from_rate / to_rate)\<rfloor>"
      unfolding q eq by (simp add: floor_divide_of_nat_eq)
    have inside: "i * k < length input" if "i < length input div k" for i
    proof -
      have "i * k + k \<le> length input div k * k"
        using that by (metis Suc_leI mult_Suc mult_le_mono1 add.commute)
      also have "\<dots> \<le> length input"
        by simp
      finally show ?thesis
        using h(1) by simp
    qed
    have nth: "\<forall>i < length (resample input from_rate to_rate).
              i * k < length input \<and> resample input from_rate to_rate ! i = input ! (i * k)"
      unfolding eq using inside by simp
    have const: "(\<forall>x \<in> set input. x = c) \<longrightarrow> (\<forall>y \<in> set (resample input from_rate to_rate). y = c)"
      unfolding eq using inside by auto
    show ?thesis
      using eq len nth const by blast
  qed
  show ?thesis
    using id whole resample_length [of from_rate to_rate input]
      resample_nth [of from_rate to_rate _ input]
    by blast
qed

text \<open>
  Seven samples from 48 kHz to 16 kHz, the identity at equal rates, and three samples of
  \<^verbatim>\<open>0.1f\<close> from rate 4 to rate 3, where the ratio rounds.
\<close>

theorem resample_correct_witness:
  "fl32 1 = 1 \<and> fl32 4 = 4 \<and> fl32 7 = 7
   \<and> resample [1, 1, 1, 1, 1, 1, 1] 48000 16000 = [1, 1]
   \<and> length (resample [1, 1, 1, 1, 1, 1, 1] 48000 16000) = nat \<lfloor>real 7 / (48000 / 16000)\<rfloor>
   \<and> set (resample [1, 1, 1, 1, 1, 1, 1] 48000 16000) = {1}
   \<and> resample [1, 2, 3, 4, 5, 6, 7] 48000 16000 = [1, 4]
   \<and> resample [1, 2, 3] 16000 16000 = [1, 2, 3]
   \<and> 0 < fl64 (4 / 3)
   \<and> fl64 (fl64 (real (3::nat)) / fl64 (4 / 3)) < 2 ^ 64
   \<and> length (resample [13421773 / 134217728, 13421773 / 134217728, 13421773 / 134217728] 4 3) = 2
   \<and> resample [13421773 / 134217728, 13421773 / 134217728, 13421773 / 134217728] 4 3 ! 0 =
       13421773 / 134217728"
proof -
  let ?c = "13421773 / 134217728 :: real"
  have r: "fl32 1 = 1" "fl32 2 = 2" "fl32 3 = 3" "fl32 4 = 4" "fl32 5 = 5" "fl32 6 = 6" "fl32 7 = 7"
    by code_simp+
  have a: "2 \<le> (3::nat) \<and> (3::nat) < 2 ^ 53 \<and> (0::real) < 16000 \<and> (48000::real) = real 3 * 16000
           \<and> length [1, 1, 1, 1, 1, 1, 1 :: real] < 2 ^ 53
           \<and> (\<forall>s \<in> set [1, 1, 1, 1, 1, 1, 1]. fl32 s = s)"
    using r by simp
  have b: "2 \<le> (3::nat) \<and> (3::nat) < 2 ^ 53 \<and> (0::real) < 16000 \<and> (48000::real) = real 3 * 16000
           \<and> length [1, 2, 3, 4, 5, 6, 7 :: real] < 2 ^ 53
           \<and> (\<forall>s \<in> set [1, 2, 3, 4, 5, 6, 7]. fl32 s = s)"
    using r by simp
  from resample_correct [of 48000 16000 "[1, 1, 1, 1, 1, 1, 1]" 3 1] a
  have 1: "resample [1, 1, 1, 1, 1, 1, 1] 48000 16000 =
             map (\<lambda>i. [1, 1, 1, 1, 1, 1, 1] ! (i * 3)) [0..<length [1, 1, 1, 1, 1, 1, 1 :: real] div 3]"
    and 2: "length (resample [1, 1, 1, 1, 1, 1, 1] 48000 16000) =
             nat \<lfloor>real (length [1, 1, 1, 1, 1, 1, 1 :: real]) / (48000 / 16000)\<rfloor>"
    by blast+
  from resample_correct [of 48000 16000 "[1, 2, 3, 4, 5, 6, 7]" 3 1] b
  have 3: "resample [1, 2, 3, 4, 5, 6, 7] 48000 16000 =
             map (\<lambda>i. [1, 2, 3, 4, 5, 6, 7] ! (i * 3)) [0..<length [1, 2, 3, 4, 5, 6, 7 :: real] div 3]"
    by blast
  from resample_correct [of 16000 16000 "[1, 2, 3]" 3 1]
  have 4: "resample [1, 2, 3] 16000 16000 = [1, 2, 3]"
    by blast
  have m1: "map (\<lambda>i. [1, 1, 1, 1, 1, 1, 1 :: real] ! (i * 3))
              [0..<length [1, 1, 1, 1, 1, 1, 1 :: real] div 3] = [1, 1]"
    by (simp add: upt_rec)
  have m2: "map (\<lambda>i. [1, 2, 3, 4, 5, 6, 7 :: real] ! (i * 3))
              [0..<length [1, 2, 3, 4, 5, 6, 7 :: real] div 3] = [1, 4]"
    by (simp add: upt_rec)
  have 5: "length (resample [1, 1, 1, 1, 1, 1, 1] 48000 16000) = nat \<lfloor>real 7 / (48000 / 16000)\<rfloor>"
    using 2 by simp
  have g1: "0 < fl64 (4 / 3)"
    by code_simp
  have g2: "fl64 (fl64 (real (3::nat)) / fl64 (4 / 3)) < 2 ^ 64"
    by code_simp
  have g: "(4::real) \<noteq> 3 \<and> 0 < fl64 (4 / 3)
           \<and> fl64 (fl64 (real (length [?c, ?c, ?c])) / fl64 (4 / 3)) < 2 ^ 64"
    using g1 g2 by simp
  have n3: "nat \<lfloor>fl64 (fl64 (real (length [?c, ?c, ?c])) / fl64 (4 / 3))\<rfloor> = 2"
    by code_simp
  from resample_correct [of 4 3 "[?c, ?c, ?c]" 3 1] g
  have 6: "length (resample [?c, ?c, ?c] 4 3) =
             nat \<lfloor>fl64 (fl64 (real (length [?c, ?c, ?c])) / fl64 (4 / 3))\<rfloor>"
    and 7: "\<forall>i < length (resample [?c, ?c, ?c] 4 3).
           resample [?c, ?c, ?c] 4 3 ! i =
             fl32 (fl32 ([?c, ?c, ?c] ! nat \<lfloor>fl64 (fl64 (real i) * fl64 (4 / 3))\<rfloor>
                           * fl32 (1 - fl32 (fl64 (fl64 (fl64 (real i) * fl64 (4 / 3))
                                - fl64 (real (nat \<lfloor>fl64 (fl64 (real i) * fl64 (4 / 3))\<rfloor>))))))
                   + fl32 ([?c, ?c, ?c] ! min (nat \<lfloor>fl64 (fl64 (real i) * fl64 (4 / 3))\<rfloor> + 1)
                                        (length [?c, ?c, ?c] - 1)
                           * fl32 (fl64 (fl64 (fl64 (real i) * fl64 (4 / 3))
                                - fl64 (real (nat \<lfloor>fl64 (fl64 (real i) * fl64 (4 / 3))\<rfloor>))))))"
    by blast+
  have l3: "length (resample [?c, ?c, ?c] 4 3) = 2"
    using 6 unfolding n3 .
  have c: "fl32 ?c = ?c"
    by code_simp
  have z: "fl64 (real (0::nat)) = 0"
    by (simp add: fl64_zero)
  have "resample [?c, ?c, ?c] 4 3 ! 0 =
             fl32 (fl32 ([?c, ?c, ?c] ! nat \<lfloor>fl64 (fl64 (real (0::nat)) * fl64 (4 / 3))\<rfloor>
                           * fl32 (1 - fl32 (fl64 (fl64 (fl64 (real (0::nat)) * fl64 (4 / 3))
                                - fl64 (real (nat \<lfloor>fl64 (fl64 (real (0::nat)) * fl64 (4 / 3))\<rfloor>))))))
                   + fl32 ([?c, ?c, ?c] ! min (nat \<lfloor>fl64 (fl64 (real (0::nat)) * fl64 (4 / 3))\<rfloor> + 1)
                                        (length [?c, ?c, ?c] - 1)
                           * fl32 (fl64 (fl64 (fl64 (real (0::nat)) * fl64 (4 / 3))
                                - fl64 (real (nat \<lfloor>fl64 (fl64 (real (0::nat)) * fl64 (4 / 3))\<rfloor>))))))"
    using 7 l3 by simp
  then have v: "resample [?c, ?c, ?c] 4 3 ! 0 = ?c"
    unfolding z by (simp add: fl64_zero fl32_zero fl32_one c)
  show ?thesis
    using r 5 4 g1 g2 l3 v unfolding 1 3 m1 m2 by simp
qed

section \<open>Hallucination filter\<close>

subsection \<open>The loops as list functions\<close>

lemma erase_front_loop_dropWhile:
  "erase_front_loop s = dropWhile is_space_or_newline s"
  by (induction s) (simp_all add: is_space_or_newline_def)

lemma pop_back_loop_dropWhile:
  "pop_back_loop s = rev (dropWhile is_space_or_newline (rev s))"
proof (induction s rule: pop_back_loop.induct)
  case (1 s)
  show ?case
  proof (cases "s \<noteq> [] \<and> (last s = CHR '' '' \<or> last s = CHR 0x0A)")
    case True
    then have s: "s = butlast s @ [last s]" by simp
    have r: "rev s = last s # rev (butlast s)"
      by (subst s) simp
    have "dropWhile is_space_or_newline (rev s) =
            dropWhile is_space_or_newline (last s # rev (butlast s))"
      by (simp only: r)
    also have "\<dots> = dropWhile is_space_or_newline (rev (butlast s))"
      using True by (auto simp: is_space_or_newline_def)
    finally show ?thesis
      using True "1.IH" by (subst pop_back_loop.simps) simp
  next
    case False
    show ?thesis
    proof (cases "s = []")
      case True
      then show ?thesis by (subst pop_back_loop.simps) simp
    next
      case ne: False
      then have s: "s = butlast s @ [last s]" by simp
      have r: "rev s = last s # rev (butlast s)"
        by (subst s) simp
      have "dropWhile is_space_or_newline (rev s) =
              dropWhile is_space_or_newline (last s # rev (butlast s))"
        by (simp only: r)
      also have "\<dots> = last s # rev (butlast s)"
        using False ne by (auto simp: is_space_or_newline_def)
      finally have "dropWhile is_space_or_newline (rev s) = rev s"
        by (simp only: r)
      then show ?thesis
        using False ne by (subst pop_back_loop.simps) auto
    qed
  qed
qed

lemma trim_loops: "pop_back_loop (erase_front_loop s) = trim_spaces_newlines s"
  by (simp add: erase_front_loop_dropWhile pop_back_loop_dropWhile trim_spaces_newlines_def)

lemma find_from_None: "find_from s p pos = None \<longleftrightarrow> \<not> sublist p s"
  by (induction s arbitrary: pos) (auto simp: sublist_Cons_right)

lemma find_from_Some: "(\<exists>y. find_from s p pos = Some y) \<longleftrightarrow> sublist p s"
  using find_from_None [of s p pos] by (cases "find_from s p pos") auto

lemma pattern_loop_list_ex:
  "pattern_loop lower ps = list_ex (\<lambda>p. sublist p lower) ps"
  by (induction ps) (simp_all add: find_str_def find_from_None find_from_Some)

subsection \<open>The filter and the text it trims\<close>

text \<open>
  The text made of a tab followed by \<open>ok\<close> is three characters long for the source, which
  trims spaces and line feeds only, and is accepted. Trimmed of whitespace it is \<open>ok\<close>,
  two characters, which the rule as worded rejects.
\<close>

theorem is_hallucination_tab_counterexample:
  "is_hallucination [CHR 0x09, CHR ''o'', CHR ''k''] \<noteq> spec_rejected [CHR 0x09, CHR ''o'', CHR ''k'']"
  by code_simp

text \<open>
  C6, amended. A text is rejected exactly when, after \<open>A\<close> to \<open>Z\<close> are lower-cased and the
  spaces and line feeds at both ends are removed (no other character is trimmed), it is
  shorter than 3 characters or has one of the nine phrases of \<open>HALLUCINATION_PATTERNS\<close> as
  a contiguous substring. \<open>Thank you.\<close>, \<open>bye bye\<close> between spaces and the empty text are
  rejected; \<open>The weather today is sunny\<close> is accepted.
\<close>

theorem is_hallucination_spaces_newlines:
  "is_hallucination txt =
     (length (trim_spaces_newlines (map tolower_c txt)) < 3
      \<or> list_ex (\<lambda>p. sublist p (trim_spaces_newlines (map tolower_c txt))) HALLUCINATION_PATTERNS)
   \<and> is_hallucination ''Thank you.''
   \<and> is_hallucination ''  bye bye  ''
   \<and> is_hallucination ''''
   \<and> \<not> is_hallucination ''The weather today is sunny''"
proof -
  have "is_hallucination ''Thank you.''" by code_simp
  moreover have "is_hallucination ''  bye bye  ''" by code_simp
  moreover have "is_hallucination ''''" by code_simp
  moreover have "\<not> is_hallucination ''The weather today is sunny''" by code_simp
  moreover have "is_hallucination txt =
     (length (trim_spaces_newlines (map tolower_c txt)) < 3
      \<or> list_ex (\<lambda>p. sublist p (trim_spaces_newlines (map tolower_c txt))) HALLUCINATION_PATTERNS)"
    by (simp add: is_hallucination_def Let_def trim_loops pattern_loop_list_ex)
  ultimately show ?thesis by blast
qed

section \<open>Chunked transcription\<close>

subsection \<open>The loop and the chunks\<close>

lemma chunk_size: "static_cast_size_t MAX_CHUNK_SAMPLES = 480000"
  by (simp add: static_cast_size_t_def MAX_CHUNK_SAMPLES_def)

lemma split_chunks_Nil: "split_chunks n [] = []"
  by (subst split_chunks.simps) simp

lemma chunk_loop_transcribe_each:
  "chunk_loop W wc smpls offset acc w =
     (acc @ fst (transcribe_each W wc (split_chunks 480000 (drop offset smpls)) offset w),
      snd (transcribe_each W wc (split_chunks 480000 (drop offset smpls)) offset w))"
proof (induction W wc smpls offset acc w rule: chunk_loop.induct)
  case (1 W wc smpls offset all_segments w)
  show ?case
  proof (cases "offset < length smpls")
    case False
    then show ?thesis
      by (subst chunk_loop.simps) (simp add: split_chunks_Nil)
  next
    case True
    let ?e = "min (offset + 480000) (length smpls)"
    let ?chunk = "take 480000 (drop offset smpls)"
    have tk: "take (?e - offset) (drop offset smpls) = ?chunk"
      by (cases "offset + 480000 \<le> length smpls") (simp_all add: min_def)
    have len: "offset + min (length smpls - offset) 480000 = ?e"
      using True by (auto simp: min_def)
    have dr: "drop (480000 + offset) smpls = drop ?e smpls"
      by (cases "offset + 480000 \<le> length smpls") (simp_all add: min_def add.commute)
    have sp: "split_chunks 480000 (drop offset smpls) = ?chunk # split_chunks 480000 (drop ?e smpls)"
      using True by (subst split_chunks.simps) (simp add: dr)
    show ?thesis
      using True "1.IH" [OF True refl refl refl refl]
      by (subst chunk_loop.simps)
         (simp add: chunk_size tk sp len Let_def rebase_def [abs_def] del: take_all)
  qed
qed


lemma split_chunks_Cons:
  "0 < n \<Longrightarrow> xs \<noteq> [] \<Longrightarrow> split_chunks n xs = take n xs # split_chunks n (drop n xs)"
  by (subst split_chunks.simps) simp

lemma concat_split_chunks: "0 < n \<Longrightarrow> concat (split_chunks n xs) = xs"
proof (induction n xs rule: split_chunks.induct)
  case (1 n xs)
  show ?case
  proof (cases "xs = []")
    case True
    then show ?thesis by (simp add: split_chunks_Nil)
  next
    case False
    then show ?thesis
      using "1.prems" "1.IH" by (simp add: split_chunks_Cons)
  qed
qed

lemma split_chunks_sizes:
  "0 < n \<Longrightarrow> list_all (\<lambda>c. c \<noteq> [] \<and> length c \<le> n) (split_chunks n xs)"
proof (induction n xs rule: split_chunks.induct)
  case (1 n xs)
  show ?case
  proof (cases "xs = []")
    case True
    then show ?thesis by (simp add: split_chunks_Nil)
  next
    case False
    then show ?thesis
      using "1.prems" "1.IH" by (simp add: split_chunks_Cons)
  qed
qed

lemma split_chunks_full:
  "0 < n \<Longrightarrow> list_all (\<lambda>c. length c = n) (butlast (split_chunks n xs))"
proof (induction n xs rule: split_chunks.induct)
  case (1 n xs)
  show ?case
  proof (cases "xs = []")
    case True
    then show ?thesis by (simp add: split_chunks_Nil)
  next
    case False
    show ?thesis
    proof (cases "drop n xs = []")
      case True
      then show ?thesis
        using False "1.prems" by (simp add: split_chunks_Cons split_chunks_Nil)
    next
      case ne: False
      then have "n < length xs" by simp
      moreover have "split_chunks n (drop n xs) \<noteq> []"
        using ne "1.prems" by (simp add: split_chunks_Cons)
      ultimately show ?thesis
        using False "1.prems" "1.IH" by (simp add: split_chunks_Cons)
    qed
  qed
qed

lemma transcribe_log:
  "whisper_log (snd (WhisperContext_transcribe W wc c hint w)) =
     whisper_log w @
       [\<lparr>call_samples = c, call_context_prompt = hint,
         call_initial_prompt =
           (case hint of Some p \<Rightarrow> Some p
            | None \<Rightarrow> if initial_prompt (wc_settings wc) \<noteq> []
                      then Some (initial_prompt (wc_settings wc)) else None)\<rparr>]"
  by (simp add: WhisperContext_transcribe_def Let_def)

lemma transcribe_typed:
  "typed (snd (WhisperContext_transcribe W wc c hint w)) = typed w"
  by (simp add: WhisperContext_transcribe_def Let_def)

lemma transcribe_each_log:
  "whisper_log (snd (transcribe_each W wc chunks offset w)) =
     whisper_log w @
       map (\<lambda>c. \<lparr>call_samples = c, call_context_prompt = None,
                  call_initial_prompt =
                    (if initial_prompt (wc_settings wc) \<noteq> []
                     then Some (initial_prompt (wc_settings wc)) else None)\<rparr>) chunks"
  by (induction chunks arbitrary: offset w) (simp_all add: Let_def transcribe_log)

lemma transcribe_each_typed:
  "typed (snd (transcribe_each W wc chunks offset w)) = typed w"
  by (induction chunks arbitrary: offset w) (simp_all add: Let_def transcribe_typed)

lemma floor_sixteenth: "\<lfloor>real n / 16\<rfloor> = int (n div 16)"
  using floor_divide_of_nat_eq [of n 16] by simp

lemma time_ordered_rebase: "time_ordered segs \<Longrightarrow> time_ordered (map (rebase d) segs)"
  by (simp add: time_ordered_def sorted_wrt_map rebase_def)

lemma segment_within_rebase:
  "segment_within lo hi seg \<Longrightarrow> segment_within (lo + d) (hi + d) (rebase d seg)"
  by (simp add: segment_within_def rebase_def)

lemma segment_within_mono:
  "segment_within lo hi seg \<Longrightarrow> lo' \<le> lo \<Longrightarrow> hi \<le> hi' \<Longrightarrow> segment_within lo' hi' seg"
  by (simp add: segment_within_def)

lemma transcribe_each_ordered:
  assumes ok: "\<forall>c w'. within_audio (length c) (segments (fst (WhisperContext_transcribe W wc c None w')))"
  shows "time_ordered (fst (transcribe_each W wc chunks offset w))
       \<and> list_all (segment_within \<lfloor>real offset / 16\<rfloor>
                                   \<lfloor>real (offset + length (concat chunks)) / 16\<rfloor>)
                  (fst (transcribe_each W wc chunks offset w))"
proof (induction chunks arbitrary: offset w)
  case Nil
  then show ?case by (simp add: time_ordered_def)
next
  case (Cons c cs)
  let ?res = "WhisperContext_transcribe W wc c None w"
  let ?head = "map (rebase \<lfloor>real offset / 16\<rfloor>) (segments (fst ?res))"
  let ?rest = "fst (transcribe_each W wc cs (offset + length c) (snd ?res))"
  let ?lo = "\<lfloor>real offset / 16\<rfloor>"
  let ?mid = "\<lfloor>real (offset + length c) / 16\<rfloor>"
  let ?hi = "\<lfloor>real (offset + length (concat (c # cs))) / 16\<rfloor>"
  have lo_mid: "?lo \<le> ?mid"
    unfolding floor_sixteenth by (simp add: div_le_mono)
  have mid_hi: "?mid \<le> ?hi"
    unfolding floor_sixteenth by (simp add: div_le_mono)
  have add: "?lo + \<lfloor>real (length c) / 16\<rfloor> \<le> ?mid"
    unfolding floor_sixteenth
    using div_add1_eq [of offset "length c" 16] by linarith
  from ok have wa: "within_audio (length c) (segments (fst ?res))" by blast
  then have h_ord: "time_ordered ?head"
    by (simp add: within_audio_def time_ordered_rebase)
  have h_in: "segment_within ?lo ?mid s" if "s \<in> set ?head" for s
  proof -
    from that obtain s0 where s0: "s0 \<in> set (segments (fst ?res))" and s: "s = rebase ?lo s0"
      by auto
    from wa s0 have "segment_within 0 \<lfloor>real (length c) / 16\<rfloor> s0"
      by (simp add: within_audio_def list_all_iff)
    from segment_within_rebase [OF this, of ?lo]
    show ?thesis
      unfolding s using add by (auto intro: segment_within_mono)
  qed
  from Cons.IH [of "offset + length c" "snd ?res"]
  have r_ord: "time_ordered ?rest"
    and r_all: "list_all (segment_within ?mid ?hi) ?rest"
    by (simp_all add: add.assoc)
  have r_in: "segment_within ?mid ?hi s" if "s \<in> set ?rest" for s
    using r_all that by (simp add: list_all_iff)
  have cross: "start_time a \<le> start_time b \<and> end_time a \<le> end_time b"
    if "a \<in> set ?head" and "b \<in> set ?rest" for a b
    using h_in [OF that(1)] r_in [OF that(2)] by (simp add: segment_within_def)
  have ord: "time_ordered (?head @ ?rest)"
    using h_ord r_ord cross unfolding time_ordered_def sorted_wrt_append by blast
  have rng: "list_all (segment_within ?lo ?hi) (?head @ ?rest)"
    unfolding list_all_iff
  proof
    fix s assume "s \<in> set (?head @ ?rest)"
    then consider "s \<in> set ?head" | "s \<in> set ?rest" by auto
    then show "segment_within ?lo ?hi s"
    proof cases
      case 1
      from h_in [OF this] show ?thesis
        using mid_hi by (auto intro: segment_within_mono)
    next
      case 2
      from r_in [OF this] show ?thesis
        using lo_mid by (auto intro: segment_within_mono)
    qed
  qed
  show ?case
    using ord rng by (simp add: Let_def)
qed


lemma transcribe_chunked_segments:
  "segments (fst (transcribe_chunked W p wc smpls w)) =
     fst (transcribe_each W wc (split_chunks 480000 smpls) 0 w)
   \<and> snd (transcribe_chunked W p wc smpls w) =
     snd (transcribe_each W wc (split_chunks 480000 smpls) 0 w)"
  by (simp add: transcribe_chunked_def Let_def chunk_loop_transcribe_each)

lemma split_two_chunks:
  "split_chunks 480000 (replicate 480001 (0::real)) = [replicate 480000 0, replicate 1 0]"
  by (simp add: split_chunks_Cons split_chunks_Nil)

lemma whisper_spanning_within:
  "within_audio (length c) (segments (fst (WhisperContext_transcribe whisper_spanning wc c None w')))"
proof -
  have "int (length c) div 160 * 10 \<le> int (length c div 16)"
    by (simp add: zdiv_int)
  then show ?thesis
    by (simp add: WhisperContext_transcribe_def Let_def whisper_spanning_def within_audio_def
          time_ordered_def segment_within_def floor_sixteenth)
qed


subsection \<open>Order of the re-based times\<close>

text \<open>
  With 480001 samples there are two chunks. A recognizer that places the segment of the
  first chunk at 30.5 s to 31 s, past the 30 s the chunk lasts, and the segment of the
  second chunk at 0 s to 0.5 s gives the re-based list (30500, 31000), (30000, 30500): the
  times decrease across the chunk boundary.
\<close>

theorem transcribe_chunked_late_counterexample:
  "segments (fst (transcribe_chunked whisper_late pipeline_loaded
                    \<lparr>wc_settings = Settings_init, wc_model_name = ''base.en''\<rparr>
                    (replicate 480001 0) world_init)) =
     [\<lparr>seg_text = ''a'', start_time = 30500, end_time = 31000\<rparr>,
      \<lparr>seg_text = ''b'', start_time = 30000, end_time = 30500\<rparr>]
   \<and> \<not> time_ordered (segments (fst (transcribe_chunked whisper_late pipeline_loaded
                    \<lparr>wc_settings = Settings_init, wc_model_name = ''base.en''\<rparr>
                    (replicate 480001 0) world_init)))"
proof -
  have "segments (fst (transcribe_chunked whisper_late pipeline_loaded
                    \<lparr>wc_settings = Settings_init, wc_model_name = ''base.en''\<rparr>
                    (replicate 480001 0) world_init)) =
     [\<lparr>seg_text = ''a'', start_time = 30500, end_time = 31000\<rparr>,
      \<lparr>seg_text = ''b'', start_time = 30000, end_time = 30500\<rparr>]"
    by (simp add: transcribe_chunked_segments split_two_chunks Let_def
          WhisperContext_transcribe_def whisper_late_def world_init_def Settings_init_def
          rebase_def)
  then show ?thesis
    by (simp add: time_ordered_def)
qed


text \<open>
  C4, amended. \<^verbatim>\<open>transcribe_chunked\<close> cuts the input into consecutive chunks of 480000
  samples that together are the input (none empty, all but the last full), makes one
  recognizer call per chunk, in order and with no context prompt, adds to both times of
  every segment the \<open>\<lfloor>offset / 16\<rfloor>\<close> milliseconds of the sample offset of its chunk, and
  concatenates the segments in chunk order; the audio duration of the result is that of the
  whole input. \<^verbatim>\<open>transcribe_and_output\<close> takes this path for every input of more than 480000
  samples (and fewer than \<open>2^31\<close>, the range of the \<^verbatim>\<open>int\<close> the length is cast to). When the
  recognizer reports, for every piece of audio, segments in time order whose times lie
  between 0 and the duration of the piece, the re-based start times and end times never
  decrease along the result, across chunk boundaries included.
\<close>

theorem transcribe_chunked_rebased:
  "segments (fst (transcribe_chunked W p wc smpls w)) =
     fst (transcribe_each W wc (split_chunks 480000 smpls) 0 w)
   \<and> concat (split_chunks 480000 smpls) = smpls
   \<and> list_all (\<lambda>c. c \<noteq> [] \<and> length c \<le> 480000) (split_chunks 480000 smpls)
   \<and> list_all (\<lambda>c. length c = 480000) (butlast (split_chunks 480000 smpls))
   \<and> whisper_log (snd (transcribe_chunked W p wc smpls w)) =
       whisper_log w @
         map (\<lambda>c. \<lparr>call_samples = c, call_context_prompt = None,
                    call_initial_prompt =
                      (if initial_prompt (wc_settings wc) \<noteq> []
                       then Some (initial_prompt (wc_settings wc)) else None)\<rparr>)
             (split_chunks 480000 smpls)
   \<and> audio_duration_ms (fst (transcribe_chunked W p wc smpls w)) = real (length smpls) / 16
   \<and> (ctx p = Some wc \<and> 480000 < length smpls \<and> length smpls < 2 ^ 31 \<longrightarrow>
        fst (transcribe_and_output W p smpls w) =
          fst (transcribe_chunked W (p\<lparr>transcribing := True\<rparr>) wc smpls w))
   \<and> ((\<forall>c w'. within_audio (length c) (segments (fst (WhisperContext_transcribe W wc c None w'))))
        \<longrightarrow> time_ordered (segments (fst (transcribe_chunked W p wc smpls w))))"
proof -
  have "ctx p = Some wc \<and> 480000 < length smpls \<and> length smpls < 2 ^ 31 \<longrightarrow>
        fst (transcribe_and_output W p smpls w) =
          fst (transcribe_chunked W (p\<lparr>transcribing := True\<rparr>) wc smpls w)"
    by (simp add: transcribe_and_output_def Let_def static_cast_int_small MAX_CHUNK_SAMPLES_def)
  moreover have "audio_duration_ms (fst (transcribe_chunked W p wc smpls w)) = real (length smpls) / 16"
    by (simp add: transcribe_chunked_def Let_def)
  moreover have "(\<forall>c w'. within_audio (length c) (segments (fst (WhisperContext_transcribe W wc c None w'))))
        \<longrightarrow> time_ordered (segments (fst (transcribe_chunked W p wc smpls w)))"
    using transcribe_each_ordered [of W wc "split_chunks 480000 smpls" 0 w]
    by (simp add: transcribe_chunked_segments)
  ultimately show ?thesis
    using concat_split_chunks [of 480000 smpls] split_chunks_sizes [of 480000 smpls]
      split_chunks_full [of 480000 smpls]
    by (simp add: transcribe_chunked_segments transcribe_each_log)
qed


text \<open>Two full chunks and one sample more, with a recognizer that spans each chunk.\<close>

theorem transcribe_chunked_rebased_witness:
  "segments (fst (transcribe_chunked whisper_spanning pipeline_loaded
                    \<lparr>wc_settings = Settings_init, wc_model_name = ''base.en''\<rparr>
                    (replicate 960001 0) world_init)) =
     [\<lparr>seg_text = ''a'', start_time = 0, end_time = 30000\<rparr>,
      \<lparr>seg_text = ''a'', start_time = 30000, end_time = 60000\<rparr>,
      \<lparr>seg_text = ''a'', start_time = 60000, end_time = 60000\<rparr>]
   \<and> time_ordered (segments (fst (transcribe_chunked whisper_spanning pipeline_loaded
                    \<lparr>wc_settings = Settings_init, wc_model_name = ''base.en''\<rparr>
                    (replicate 960001 0) world_init)))
   \<and> fst (transcribe_and_output whisper_spanning pipeline_loaded (replicate 960001 0) world_init) =
       fst (transcribe_chunked whisper_spanning (pipeline_loaded\<lparr>transcribing := True\<rparr>)
              \<lparr>wc_settings = Settings_init, wc_model_name = ''base.en''\<rparr>
              (replicate 960001 0) world_init)"
proof -
  let ?wc = "\<lparr>wc_settings = Settings_init, wc_model_name = ''base.en''\<rparr>"
  have sp: "split_chunks 480000 (replicate 960001 (0::real)) =
              [replicate 480000 0, replicate 480000 0, replicate 1 0]"
    by (simp add: split_chunks_Cons split_chunks_Nil)
  have ok: "\<forall>c w'. within_audio (length c)
              (segments (fst (WhisperContext_transcribe whisper_spanning ?wc c None w')))"
    by (simp add: whisper_spanning_within)
  have c: "ctx pipeline_loaded = Some ?wc"
    by (simp add: pipeline_loaded_def)
  have e: "fst (transcribe_each whisper_spanning ?wc (split_chunks 480000 (replicate 960001 0)) 0 world_init) =
     [\<lparr>seg_text = ''a'', start_time = 0, end_time = 30000\<rparr>,
      \<lparr>seg_text = ''a'', start_time = 30000, end_time = 60000\<rparr>,
      \<lparr>seg_text = ''a'', start_time = 60000, end_time = 60000\<rparr>]"
    by (simp add: sp Let_def WhisperContext_transcribe_def whisper_spanning_def rebase_def)
  note th = transcribe_chunked_rebased
              [of whisper_spanning pipeline_loaded ?wc "replicate 960001 0" world_init]
  from th ok
  have t: "time_ordered (segments (fst (transcribe_chunked whisper_spanning pipeline_loaded ?wc
                                          (replicate 960001 0) world_init)))"
    by blast
  from th c
  have o: "fst (transcribe_and_output whisper_spanning pipeline_loaded (replicate 960001 0) world_init) =
           fst (transcribe_chunked whisper_spanning (pipeline_loaded\<lparr>transcribing := True\<rparr>) ?wc
                  (replicate 960001 0) world_init)"
    by simp
  from th e
  have s: "segments (fst (transcribe_chunked whisper_spanning pipeline_loaded ?wc
                            (replicate 960001 0) world_init)) =
     [\<lparr>seg_text = ''a'', start_time = 0, end_time = 30000\<rparr>,
      \<lparr>seg_text = ''a'', start_time = 30000, end_time = 60000\<rparr>,
      \<lparr>seg_text = ''a'', start_time = 60000, end_time = 60000\<rparr>]"
    by simp
  from s t o show ?thesis
    by blast
qed

section \<open>Sessions too short to transcribe\<close>

lemma stop_recording_samples:
  "fst (AudioEngine_stop_recording a) = resample (samples (buffer a)) (hardware_sr a) 16000"
  by (simp add: AudioEngine_stop_recording_def Let_def drain_def resample_def)

text \<open>
  C8. When a recording is stopped and the drained buffer, resampled to 16 kHz, has fewer
  than 8000 samples, \<^verbatim>\<open>stop_recording_and_transcribe\<close> returns the empty result and leaves
  the world as it was: no recognizer call is logged and no text is handed to the output.
  The recording flag is cleared and \<open>did_output\<close> keeps its value.
\<close>

theorem short_session_empty:
  assumes "transcription_mode (settings p) = buffered"
      and "recording p"
      and "length (resample (samples (buffer (audio p))) (hardware_sr (audio p)) 16000) < 8000"
  shows "fst (stop_recording_and_transcribe W p w) = empty_result
       \<and> snd (snd (stop_recording_and_transcribe W p w)) = w
       \<and> whisper_log (snd (snd (stop_recording_and_transcribe W p w))) = whisper_log w
       \<and> typed (snd (snd (stop_recording_and_transcribe W p w))) = typed w
       \<and> did_output (fst (snd (stop_recording_and_transcribe W p w))) = did_output p
       \<and> \<not> recording (fst (snd (stop_recording_and_transcribe W p w)))"
proof -
  have "static_cast_int (length (fst (AudioEngine_stop_recording (audio p)))) < MIN_SAMPLES"
    using assms(3) by (simp add: stop_recording_samples static_cast_int_small MIN_SAMPLES_def)
  then show ?thesis
    using assms(2)
    by (simp add: stop_recording_and_transcribe_def Let_def stop_continuous_monitor_def)
qed

text \<open>A buffered session with 3000 samples at 48 kHz, which are 1000 samples at 16 kHz.\<close>

lemma resample_replicate_3: "resample (replicate 3000 0) 48000 16000 = replicate 1000 0"
  using resample_replicate_48000 [of 3000 0] by (simp add: fl32_zero)

theorem short_session_empty_witness:
  "transcription_mode (settings (pipeline_loaded
       \<lparr>settings := Settings_init\<lparr>transcription_mode := buffered\<rparr>, recording := True,
        audio := AudioEngine_open\<lparr>collecting := True,
                   buffer := \<lparr>samples = replicate 3000 0\<rparr>\<rparr>\<rparr>)) = buffered
   \<and> length (resample (replicate 3000 0) 48000 16000) = 1000
   \<and> stop_recording_and_transcribe whisper_spanning
        (pipeline_loaded
           \<lparr>settings := Settings_init\<lparr>transcription_mode := buffered\<rparr>, recording := True,
            audio := AudioEngine_open\<lparr>collecting := True,
                       buffer := \<lparr>samples = replicate 3000 0\<rparr>\<rparr>\<rparr>)
        world_init
      = (empty_result,
         pipeline_loaded
           \<lparr>settings := Settings_init\<lparr>transcription_mode := buffered\<rparr>, recording := False,
            audio := AudioEngine_open\<lparr>collecting := False,
                       vad := reset (VoiceActivityDetector_init\<lparr>min_speech_duration_ms := 30\<rparr>),
                       buffer := \<lparr>samples = []\<rparr>\<rparr>\<rparr>,
         world_init)"
proof -
  let ?p = "pipeline_loaded
       \<lparr>settings := Settings_init\<lparr>transcription_mode := buffered\<rparr>, recording := True,
        audio := AudioEngine_open\<lparr>collecting := True,
                   buffer := \<lparr>samples = replicate 3000 0\<rparr>\<rparr>\<rparr>"
  have m: "transcription_mode (settings ?p) = buffered"
    by (simp add: Settings_init_def)
  have r: "recording ?p" by simp
  have l: "length (resample (samples (buffer (audio ?p))) (hardware_sr (audio ?p)) 16000) < 8000"
    by (simp add: AudioEngine_open_def resample_replicate_3)
  have st: "fst (snd (stop_recording_and_transcribe whisper_spanning ?p world_init)) =
          pipeline_loaded
           \<lparr>settings := Settings_init\<lparr>transcription_mode := buffered\<rparr>, recording := False,
            audio := AudioEngine_open\<lparr>collecting := False,
                       vad := reset (VoiceActivityDetector_init\<lparr>min_speech_duration_ms := 30\<rparr>),
                       buffer := \<lparr>samples = []\<rparr>\<rparr>\<rparr>"
    by (simp add: stop_recording_and_transcribe_def Let_def stop_continuous_monitor_def
          AudioEngine_stop_recording_def drain_def resample_replicate_3 AudioEngine_open_def
          static_cast_int_small MIN_SAMPLES_def pipeline_loaded_def Settings_init_def)
  show ?thesis
    using short_session_empty [OF m r l, of whisper_spanning world_init] m st
    by (simp add: resample_replicate_3 prod_eq_iff)
qed

section \<open>No recognizer, and a recognizer that fails\<close>

lemma transcribe_failed:
  "rc (W (whisper_log w)
          \<lparr>call_samples = smpls, call_context_prompt = hint,
           call_initial_prompt =
             (case hint of Some p \<Rightarrow> Some p
              | None \<Rightarrow> if initial_prompt (wc_settings wc) \<noteq> []
                        then Some (initial_prompt (wc_settings wc)) else None)\<rparr>) \<noteq> 0 \<Longrightarrow>
   fst (WhisperContext_transcribe W wc smpls hint w) =
     \<lparr>segments = [], audio_duration_ms = real (length smpls) / 16,
      transcription_time_ms = clock (snd (WhisperContext_transcribe W wc smpls hint w)) - clock w,
      model_name = wc_model_name wc\<rparr>"
  by (simp add: WhisperContext_transcribe_def Let_def)

lemma transcribe_failing_segments:
  "\<forall>h c. rc (W h c) \<noteq> 0 \<Longrightarrow> segments (fst (WhisperContext_transcribe W wc smpls hint w)) = []"
  by (simp add: WhisperContext_transcribe_def Let_def)

lemma transcribe_metadata:
  "audio_duration_ms (fst (WhisperContext_transcribe W wc smpls hint w)) = real (length smpls) / 16
   \<and> transcription_time_ms (fst (WhisperContext_transcribe W wc smpls hint w)) =
       clock (snd (WhisperContext_transcribe W wc smpls hint w)) - clock w"
  by (simp add: WhisperContext_transcribe_def Let_def)

lemma transcribe_each_failing:
  "\<forall>h c. rc (W h c) \<noteq> 0 \<Longrightarrow> fst (transcribe_each W wc chunks offset w) = []"
  by (induction chunks arbitrary: offset w) (simp_all add: Let_def transcribe_failing_segments)

lemma full_text_no_segments: "segments r = [] \<Longrightarrow> full_text r = []"
  by (simp add: full_text_def)

lemma pop_back_loop_Nil: "pop_back_loop [] = []"
  by (subst pop_back_loop.simps) simp

lemma transcribe_and_output_failing:
  assumes fail: "\<forall>h c. rc (W h c) \<noteq> 0" and c: "ctx p = Some wc"
  shows "segments (fst (transcribe_and_output W p smpls w)) = []
       \<and> audio_duration_ms (fst (transcribe_and_output W p smpls w)) = real (length smpls) / 16
       \<and> transcription_time_ms (fst (transcribe_and_output W p smpls w)) =
           clock (snd (snd (transcribe_and_output W p smpls w))) - clock w
       \<and> typed (snd (snd (transcribe_and_output W p smpls w))) = typed w
       \<and> fst (snd (transcribe_and_output W p smpls w)) =
           p\<lparr>transcribing := False,
             perf := record_perf (perf p) (fst (transcribe_and_output W p smpls w))\<rparr>"
proof (cases "static_cast_int (length smpls) > MAX_CHUNK_SAMPLES")
  case True
  have s: "segments (fst (transcribe_chunked W (p\<lparr>transcribing := True\<rparr>) wc smpls w)) = []"
    using fail by (simp add: transcribe_chunked_segments transcribe_each_failing)
  then have t: "full_text (fst (transcribe_chunked W (p\<lparr>transcribing := True\<rparr>) wc smpls w)) = []"
    by (rule full_text_no_segments)
  have m: "audio_duration_ms (fst (transcribe_chunked W (p\<lparr>transcribing := True\<rparr>) wc smpls w)) =
             real (length smpls) / 16
         \<and> transcription_time_ms (fst (transcribe_chunked W (p\<lparr>transcribing := True\<rparr>) wc smpls w)) =
             clock (snd (transcribe_chunked W (p\<lparr>transcribing := True\<rparr>) wc smpls w)) - clock w"
    by (simp add: transcribe_chunked_def Let_def)
  have ty: "typed (snd (transcribe_chunked W (p\<lparr>transcribing := True\<rparr>) wc smpls w)) = typed w"
    by (simp add: transcribe_chunked_segments transcribe_each_typed)
  show ?thesis
    using True c s t m ty
    by (simp add: transcribe_and_output_def Let_def pop_back_loop_Nil)
next
  case False
  have s: "segments (fst (WhisperContext_transcribe W wc smpls None w)) = []"
    using fail by (rule transcribe_failing_segments)
  then have t: "full_text (fst (WhisperContext_transcribe W wc smpls None w)) = []"
    by (rule full_text_no_segments)
  show ?thesis
    using False c s t transcribe_metadata [of W wc smpls None w]
      transcribe_typed [of W wc smpls None w]
    by (simp add: transcribe_and_output_def Let_def pop_back_loop_Nil)
qed

lemma continuous_iteration_flags:
  "recording (fst (continuous_iteration W p w)) = recording p
   \<and> continuous_running (fst (continuous_iteration W p w)) = continuous_running p"
  by (simp add: continuous_iteration_def Let_def output_text_def split: option.splits)

lemma continuous_iteration_failing:
  assumes fail: "\<forall>h c. rc (W h c) \<noteq> 0"
  shows "last_context_text (fst (continuous_iteration W p w)) = last_context_text p
       \<and> typed (snd (continuous_iteration W p w)) = typed w
       \<and> did_output (fst (continuous_iteration W p w)) = did_output p"
  using fail
  by (simp add: continuous_iteration_def Let_def output_text_def full_text_no_segments
        transcribe_failing_segments transcribe_typed pop_back_loop_Nil split: option.splits)

text \<open>
  C9. Without a loaded recognizer \<^verbatim>\<open>transcribe_and_output\<close> returns the empty result and
  changes nothing. A call of \<^verbatim>\<open>WhisperContext::transcribe\<close> in which \<^verbatim>\<open>whisper_full\<close> reports
  a failure returns a result with no segments whose audio duration is the sample count
  over 16 and whose transcription time is the time the clock advanced during the call.
  With a recognizer that fails on every call, \<^verbatim>\<open>transcribe_and_output\<close> returns such a
  result too, chunked or not, and outputs no text; and a pass of the continuous loop leaves
  \<open>recording\<close> and \<open>continuous_running\<close> set as they were, commits nothing and outputs
  nothing, so the session goes on. None of these functions has an error path: each returns
  a value on every input.
\<close>

theorem recognizer_failures:
  "(ctx p = None \<longrightarrow> transcribe_and_output W p smpls w = (empty_result, p, w))
   \<and> (rc (W (whisper_log w)
            \<lparr>call_samples = smpls, call_context_prompt = hint,
             call_initial_prompt =
               (case hint of Some p \<Rightarrow> Some p
                | None \<Rightarrow> if initial_prompt (wc_settings wc) \<noteq> []
                          then Some (initial_prompt (wc_settings wc)) else None)\<rparr>) \<noteq> 0 \<longrightarrow>
        fst (WhisperContext_transcribe W wc smpls hint w) =
          \<lparr>segments = [], audio_duration_ms = real (length smpls) / 16,
           transcription_time_ms =
             clock (snd (WhisperContext_transcribe W wc smpls hint w)) - clock w,
           model_name = wc_model_name wc\<rparr>)
   \<and> ((\<forall>h c. rc (W h c) \<noteq> 0) \<and> ctx p = Some wc \<longrightarrow>
        segments (fst (transcribe_and_output W p smpls w)) = []
        \<and> audio_duration_ms (fst (transcribe_and_output W p smpls w)) = real (length smpls) / 16
        \<and> transcription_time_ms (fst (transcribe_and_output W p smpls w)) =
            clock (snd (snd (transcribe_and_output W p smpls w))) - clock w
        \<and> typed (snd (snd (transcribe_and_output W p smpls w))) = typed w)
   \<and> ((\<forall>h c. rc (W h c) \<noteq> 0) \<longrightarrow>
        recording (fst (continuous_iteration W p w)) = recording p
        \<and> continuous_running (fst (continuous_iteration W p w)) = continuous_running p
        \<and> last_context_text (fst (continuous_iteration W p w)) = last_context_text p
        \<and> typed (snd (continuous_iteration W p w)) = typed w)"
proof -
  have "ctx p = None \<longrightarrow> transcribe_and_output W p smpls w = (empty_result, p, w)"
    by (simp add: transcribe_and_output_def)
  then show ?thesis
    using transcribe_failed [of W w smpls hint wc]
      transcribe_and_output_failing [of W p wc smpls w]
      continuous_iteration_flags [of W p w]
      continuous_iteration_failing [of W p w]
    by blast
qed


text \<open>
  The same with a recognizer that always returns 1 after 7 ms, on one second of audio,
  and for a pass of the continuous loop that does make the call.
\<close>

theorem recognizer_failures_witness:
  "transcribe_and_output whisper_failing (pipeline_loaded\<lparr>ctx := None\<rparr>) (replicate 16000 0) world_init =
     (empty_result, pipeline_loaded\<lparr>ctx := None\<rparr>, world_init)
   \<and> fst (WhisperContext_transcribe whisper_failing
            \<lparr>wc_settings = Settings_init, wc_model_name = ''base.en''\<rparr>
            (replicate 16000 0) None world_init) =
       \<lparr>segments = [], audio_duration_ms = 1000, transcription_time_ms = 7,
        model_name = ''base.en''\<rparr>
   \<and> segments (fst (transcribe_and_output whisper_failing pipeline_loaded (replicate 16000 0) world_init)) = []
   \<and> audio_duration_ms (fst (transcribe_and_output whisper_failing pipeline_loaded
                                (replicate 16000 0) world_init)) = 1000
   \<and> transcription_time_ms (fst (transcribe_and_output whisper_failing pipeline_loaded
                                    (replicate 16000 0) world_init)) = 7
   \<and> length (whisper_log (snd (continuous_iteration whisper_failing
        (pipeline_loaded\<lparr>recording := True, continuous_running := True, silence_frame_count := 2,
           audio := AudioEngine_open\<lparr>collecting := True,
                      buffer := \<lparr>samples = replicate 72000 0\<rparr>\<rparr>\<rparr>) world_init))) = 1
   \<and> recording (fst (continuous_iteration whisper_failing
        (pipeline_loaded\<lparr>recording := True, continuous_running := True, silence_frame_count := 2,
           audio := AudioEngine_open\<lparr>collecting := True,
                      buffer := \<lparr>samples = replicate 72000 0\<rparr>\<rparr>\<rparr>) world_init))
   \<and> continuous_running (fst (continuous_iteration whisper_failing
        (pipeline_loaded\<lparr>recording := True, continuous_running := True, silence_frame_count := 2,
           audio := AudioEngine_open\<lparr>collecting := True,
                      buffer := \<lparr>samples = replicate 72000 0\<rparr>\<rparr>\<rparr>) world_init))
   \<and> typed (snd (continuous_iteration whisper_failing
        (pipeline_loaded\<lparr>recording := True, continuous_running := True, silence_frame_count := 2,
           audio := AudioEngine_open\<lparr>collecting := True,
                      buffer := \<lparr>samples = replicate 72000 0\<rparr>\<rparr>\<rparr>) world_init)) = []"
proof -
  let ?wc = "\<lparr>wc_settings = Settings_init, wc_model_name = ''base.en''\<rparr>"
  let ?p = "pipeline_loaded\<lparr>recording := True, continuous_running := True, silence_frame_count := 2,
           audio := AudioEngine_open\<lparr>collecting := True,
                      buffer := \<lparr>samples = replicate 72000 0\<rparr>\<rparr>\<rparr>"
  have fail: "\<forall>h c. rc (whisper_failing h c) \<noteq> 0"
    by (simp add: whisper_failing_def)
  have c: "ctx pipeline_loaded = Some ?wc"
    by (simp add: pipeline_loaded_def)
  have n: "ctx (pipeline_loaded\<lparr>ctx := None\<rparr>) = None"
    by simp
  have ck: "clock (snd (WhisperContext_transcribe whisper_failing ?wc (replicate 16000 0) None world_init)) = 7"
    by (simp add: WhisperContext_transcribe_def whisper_failing_def world_init_def)
  have ck2: "clock (snd (snd (transcribe_and_output whisper_failing pipeline_loaded
                                (replicate 16000 0) world_init))) = 7"
    by (simp add: transcribe_and_output_def pipeline_loaded_def Let_def static_cast_int_small
          MAX_CHUNK_SAMPLES_def WhisperContext_transcribe_def whisper_failing_def world_init_def
          output_text_def)
  have lg: "length (whisper_log (snd (continuous_iteration whisper_failing ?p world_init))) = 1"
    by (simp add: continuous_iteration_def Let_def pipeline_loaded_def AudioEngine_open_def
          VoiceActivityDetector_init_def count_rb_def CONTINUOUS_MIN_SAMPLES_def drain_def
          resample_public_def transcribe_log world_init_def output_text_def)
  note a = recognizer_failures [of "pipeline_loaded\<lparr>ctx := None\<rparr>" whisper_failing
              "replicate 16000 0" world_init None ?wc]
  note b = recognizer_failures [of pipeline_loaded whisper_failing
              "replicate 16000 0" world_init None ?wc]
  note d = recognizer_failures [of ?p whisper_failing "[]" world_init None ?wc]
  from a n have 1: "transcribe_and_output whisper_failing (pipeline_loaded\<lparr>ctx := None\<rparr>)
                      (replicate 16000 0) world_init =
                    (empty_result, pipeline_loaded\<lparr>ctx := None\<rparr>, world_init)"
    by blast
  from a fail ck have 2: "fst (WhisperContext_transcribe whisper_failing ?wc
                                (replicate 16000 0) None world_init) =
       \<lparr>segments = [], audio_duration_ms = 1000, transcription_time_ms = 7,
        model_name = ''base.en''\<rparr>"
    by (simp add: world_init_def)
  from b fail c ck2
  have 3: "segments (fst (transcribe_and_output whisper_failing pipeline_loaded (replicate 16000 0) world_init)) = []
   \<and> audio_duration_ms (fst (transcribe_and_output whisper_failing pipeline_loaded
                                (replicate 16000 0) world_init)) = 1000
   \<and> transcription_time_ms (fst (transcribe_and_output whisper_failing pipeline_loaded
                                    (replicate 16000 0) world_init)) = 7"
    by (simp add: world_init_def)
  from d fail
  have 4: "recording (fst (continuous_iteration whisper_failing ?p world_init))
         \<and> continuous_running (fst (continuous_iteration whisper_failing ?p world_init))
         \<and> typed (snd (continuous_iteration whisper_failing ?p world_init)) = []"
    by (simp add: world_init_def)
  from 1 2 3 4 lg show ?thesis
    by blast
qed

section \<open>The rolling context of continuous mode\<close>

subsection \<open>What one pass of the loop does to the context\<close>

lemma continuous_iteration_effect:
  "(last_context_text (fst (continuous_iteration W p w)) = last_context_text p
      \<and> snd (continuous_iteration W p w) = w)
   \<or> (\<exists>c. whisper_log (snd (continuous_iteration W p w)) = whisper_log w @ [c]
          \<and> call_context_prompt c = context_prompt_of (last_context_text p)
          \<and> ((last_context_text (fst (continuous_iteration W p w)) = last_context_text p
                \<and> typed (snd (continuous_iteration W p w)) = typed w)
              \<or> (\<exists>txt. txt \<noteq> [] \<and> \<not> is_hallucination txt
                    \<and> last_context_text (fst (continuous_iteration W p w)) =
                        append_context (last_context_text p) txt
                    \<and> typed (snd (continuous_iteration W p w)) = typed w @ [txt @ '' ''])))"
  by (auto simp: continuous_iteration_def Let_def output_text_def transcribe_log transcribe_typed
        split: option.splits)

lemma trimmed_examples:
  "pop_back_loop ''hello world'' = ''hello world''"
  "pop_back_loop ''foo bar'' = ''foo bar''"
  "pop_back_loop ''baz qux'' = ''baz qux''"
  "\<not> is_hallucination ''hello world''"
  "\<not> is_hallucination ''foo bar''"
  "\<not> is_hallucination ''baz qux''"
  by code_simp+

lemma dictation_run:
  "map call_context_prompt
     (whisper_log (snd (run whisper_dictation (start_recording pipeline_loaded True, world_init)
        [Captured (reset (vad AudioEngine_open)) (replicate 72000 (1 / 10)), Tick, Tick, Tick,
         Captured (reset (vad AudioEngine_open)) (replicate 72000 (1 / 10)), Tick,
         Captured (reset (vad AudioEngine_open)) (replicate 72000 (1 / 10)), Tick]))) =
     [None, Some '' hello world'', Some '' hello world foo bar'']
   \<and> typed (snd (run whisper_dictation (start_recording pipeline_loaded True, world_init)
        [Captured (reset (vad AudioEngine_open)) (replicate 72000 (1 / 10)), Tick, Tick, Tick,
         Captured (reset (vad AudioEngine_open)) (replicate 72000 (1 / 10)), Tick,
         Captured (reset (vad AudioEngine_open)) (replicate 72000 (1 / 10)), Tick])) =
     [''hello world '', ''foo bar '', ''baz qux '']"
  by (simp add: run_def start_recording_def pipeline_loaded_def Settings_init_def
        AudioEngine_start_recording_def AudioEngine_open_def start_continuous_monitor_def
        world_init_def drain_def RingBuffer_init_def append_rb_def reset_def
        VoiceActivityDetector_init_def
        continuous_iteration_def Let_def count_rb_def CONTINUOUS_MIN_SAMPLES_def
        resample_public_def resample_replicate_48000 WhisperContext_transcribe_def
        whisper_dictation_def full_text_def trimmed_examples output_text_def
        context_prompt_of_def append_context_def record_perf_def)


subsection \<open>The hint after two commits\<close>

text \<open>
  A session in which the recognizer hears \<open>hello world\<close>, then \<open>foo bar\<close>: both are
  committed, and the context prompt of the third recognizer call is
  \<open>hello world foo bar\<close> with a space in front, 20 characters, which is not a suffix of the
  19 characters \<open>hello world foo bar\<close>.
\<close>

theorem context_hint_leading_space_counterexample:
  "map call_context_prompt
     (whisper_log (snd (run whisper_dictation (start_recording pipeline_loaded True, world_init)
        [Captured (reset (vad AudioEngine_open)) (replicate 72000 (1 / 10)), Tick, Tick, Tick,
         Captured (reset (vad AudioEngine_open)) (replicate 72000 (1 / 10)), Tick,
         Captured (reset (vad AudioEngine_open)) (replicate 72000 (1 / 10)), Tick]))) =
     [None, Some '' hello world'', Some '' hello world foo bar'']
   \<and> typed (snd (run whisper_dictation (start_recording pipeline_loaded True, world_init)
        [Captured (reset (vad AudioEngine_open)) (replicate 72000 (1 / 10)), Tick, Tick, Tick,
         Captured (reset (vad AudioEngine_open)) (replicate 72000 (1 / 10)), Tick,
         Captured (reset (vad AudioEngine_open)) (replicate 72000 (1 / 10)), Tick])) =
     [''hello world '', ''foo bar '', ''baz qux '']
   \<and> \<not> suffix '' hello world foo bar'' ''hello world foo bar''"
proof -
  have "\<not> suffix '' hello world foo bar'' ''hello world foo bar''"
    by (auto dest: suffix_length_le)
  then show ?thesis
    using dictation_run by blast
qed

lemma append_context_alt:
  "append_context c t =
     (if 500 < length (c @ '' '' @ t)
      then drop (length (c @ '' '' @ t) - 300) (c @ '' '' @ t) else c @ '' '' @ t)"
  by (simp only: append_context_def Let_def)

lemma keep_last_length:
  "length (if 500 < length x then drop (length x - 300) x else x) \<le> 500"
  by simp

lemma keep_last_suffix:
  "suffix (if 500 < length x then drop (length x - 300) x else x) x"
  by (simp add: suffix_drop)

lemma keep_last_300:
  "500 < length x \<Longrightarrow> length (if 500 < length x then drop (length x - 300) x else x) = 300"
  by simp

lemma append_context_length: "length (append_context c t) \<le> 500"
  unfolding append_context_alt by (rule keep_last_length)

lemma append_context_suffix: "suffix (append_context c t) (c @ '' '' @ t)"
  unfolding append_context_alt by (rule keep_last_suffix)

lemma append_context_cut:
  "500 < length (c @ '' '' @ t) \<Longrightarrow> length (append_context c t) = 300"
  unfolding append_context_alt by (rule keep_last_300)

lemma append_context_keep:
  "length (c @ '' '' @ t) \<le> 500 \<Longrightarrow> append_context c t = c @ '' '' @ t"
  unfolding append_context_alt by (simp only: not_less [symmetric] if_False)

lemma context_prompt_of_suffix:
  "context_prompt_of c = Some h \<Longrightarrow> suffix h c \<and> length h \<le> 200"
  by (auto simp: context_prompt_of_def Let_def suffix_drop split: if_splits)

text \<open>
  C5, amended. Every commit appends a space and then the text to the rolling context, the
  first commit included. After the commits \<open>hello world\<close> and \<open>foo bar\<close> in one session the
  context prompt of the next recognizer call is the context itself, \<open>hello world foo bar\<close>
  with a leading space. In general the prompt is the last 200 characters of the context
  (all of it when it is shorter, none when it is empty). After a commit the context is at
  most 500 characters long: it is the old context, a space and the text when these are at
  most 500 characters together, and the last 300 characters of them otherwise. A pass of
  the continuous loop either leaves the context and the world alone, or makes one
  recognizer call whose context prompt is built from the context as it was, and then
  either commits nothing or commits one accepted text in this way.
\<close>

theorem context_carry_over:
  "context_prompt_of (append_context (append_context [] ''hello world'') ''foo bar'') =
     Some '' hello world foo bar''
   \<and> length (append_context c t) \<le> 500
   \<and> suffix (append_context c t) (c @ '' '' @ t)
   \<and> (500 < length (c @ '' '' @ t) \<longrightarrow> length (append_context c t) = 300)
   \<and> (length (c @ '' '' @ t) \<le> 500 \<longrightarrow> append_context c t = c @ '' '' @ t)
   \<and> (c = [] \<longrightarrow> context_prompt_of c = None)
   \<and> (c \<noteq> [] \<longrightarrow> context_prompt_of c = Some (drop (length c - 200) c))
   \<and> (\<forall>h. context_prompt_of c = Some h \<longrightarrow> suffix h c \<and> length h \<le> 200)
   \<and> ((last_context_text (fst (continuous_iteration W p w)) = last_context_text p
          \<and> snd (continuous_iteration W p w) = w)
        \<or> (\<exists>call. whisper_log (snd (continuous_iteration W p w)) = whisper_log w @ [call]
              \<and> call_context_prompt call = context_prompt_of (last_context_text p)
              \<and> ((last_context_text (fst (continuous_iteration W p w)) = last_context_text p
                    \<and> typed (snd (continuous_iteration W p w)) = typed w)
                  \<or> (\<exists>txt. txt \<noteq> [] \<and> \<not> is_hallucination txt
                        \<and> last_context_text (fst (continuous_iteration W p w)) =
                            append_context (last_context_text p) txt
                        \<and> typed (snd (continuous_iteration W p w)) = typed w @ [txt @ '' '']))))"
proof -
  have "context_prompt_of (append_context (append_context [] ''hello world'') ''foo bar'') =
          Some '' hello world foo bar''"
    by (simp add: context_prompt_of_def append_context_def)
  moreover have "500 < length (c @ '' '' @ t) \<longrightarrow> length (append_context c t) = 300"
    using append_context_cut by blast
  moreover have "length (c @ '' '' @ t) \<le> 500 \<longrightarrow> append_context c t = c @ '' '' @ t"
    using append_context_keep by blast
  moreover have "c = [] \<longrightarrow> context_prompt_of c = None"
    by (simp add: context_prompt_of_def)
  moreover have "c \<noteq> [] \<longrightarrow> context_prompt_of c = Some (drop (length c - 200) c)"
    by (simp add: context_prompt_of_def Let_def)
  ultimately show ?thesis
    using append_context_length [of c t] append_context_suffix [of c t]
      context_prompt_of_suffix [of c] continuous_iteration_effect [of W p w]
    by blast
qed

text \<open>A context of 495 characters that a commit of \<open>hello\<close> cuts to 300, and the two commits.\<close>

theorem context_carry_over_witness:
  "length (replicate 495 CHR ''a'' @ '' '' @ ''hello'') = 501
   \<and> length (append_context (replicate 495 CHR ''a'') ''hello'') = 300
   \<and> append_context '' hello world'' ''foo bar'' = '' hello world foo bar''
   \<and> context_prompt_of '' hello world foo bar'' = Some '' hello world foo bar''
   \<and> context_prompt_of [] = None"
  using context_carry_over [of "replicate 495 CHR ''a''" "''hello''" whisper_dictation pipeline_loaded world_init]
    context_carry_over [of "'' hello world''" "''foo bar''" whisper_dictation pipeline_loaded world_init]
    context_carry_over [of "'' hello world foo bar''" "[]" whisper_dictation pipeline_loaded world_init]
    context_carry_over [of "[]" "[]" whisper_dictation pipeline_loaded world_init]
  by simp

section \<open>The context does not outlive a session\<close>

lemma run_snoc: "run W s (evs @ [e]) = step W (run W s evs) e"
  by (simp add: run_def)

lemma run_Nil: "run W s [] = s"
  by (simp add: run_def)

lemma session_text_snoc: "session_text (outs @ [txt @ '' '']) = session_text outs @ '' '' @ txt"
  by (simp add: session_text_def butlast_append)

lemma context_prompt_of_Nil: "context_prompt_of [] = None"
  by (simp add: context_prompt_of_def)

lemma suffix_imp_sublist_append:
  "suffix h c \<Longrightarrow> suffix c s \<Longrightarrow> sublist h (s @ rest)"
proof -
  assume "suffix h c" and "suffix c s"
  then have "suffix h s" by (rule suffix_order.trans)
  then have "sublist h s" by (rule suffix_imp_sublist)
  then obtain ps ss where "s = ps @ h @ ss" by (auto simp: sublist_def)
  then have "s @ rest = ps @ h @ (ss @ rest)" by simp
  then show ?thesis unfolding sublist_def by blast
qed

lemma sublist_append_right: "sublist h s \<Longrightarrow> sublist h (s @ rest)"
proof -
  assume "sublist h s"
  then obtain ps ss where "s = ps @ h @ ss" by (auto simp: sublist_def)
  then have "s @ rest = ps @ h @ (ss @ rest)" by simp
  then show ?thesis unfolding sublist_def by blast
qed

lemma start_recording_clears:
  "\<not> recording p \<Longrightarrow> last_context_text (start_recording p pa_ok) = []"
  by (simp add: start_recording_def Let_def start_continuous_monitor_def)

lemma start_recording_forgets:
  "\<not> recording p \<Longrightarrow> start_recording (p\<lparr>last_context_text := c\<rparr>) pa_ok = start_recording p pa_ok"
  by (simp add: start_recording_def Let_def start_continuous_monitor_def)

lemma session_invariant:
  assumes "last_context_text p0 = []"
  shows "\<exists>calls outs.
           whisper_log (snd (run W (p0, w0) evs)) = whisper_log w0 @ calls
         \<and> typed (snd (run W (p0, w0) evs)) = typed w0 @ outs
         \<and> (calls = [] \<longrightarrow> outs = [])
         \<and> (calls \<noteq> [] \<longrightarrow> call_context_prompt (hd calls) = None)
         \<and> (\<forall>c \<in> set calls. \<forall>h. call_context_prompt c = Some h \<longrightarrow> sublist h (session_text outs))
         \<and> suffix (last_context_text (fst (run W (p0, w0) evs))) (session_text outs)"
proof (induction evs rule: rev_induct)
  case Nil
  show ?case
    using assms by (simp add: run_Nil session_text_def)
next
  case (snoc e evs)
  obtain p w where pw: "run W (p0, w0) evs = (p, w)"
    by (cases "run W (p0, w0) evs")
  from snoc.IH pw obtain calls outs where
    lg: "whisper_log w = whisper_log w0 @ calls" and
    ty: "typed w = typed w0 @ outs" and
    e0: "calls = [] \<longrightarrow> outs = []" and
    hd0: "calls \<noteq> [] \<longrightarrow> call_context_prompt (hd calls) = None" and
    hs: "\<forall>c \<in> set calls. \<forall>h. call_context_prompt c = Some h \<longrightarrow> sublist h (session_text outs)" and
    sf: "suffix (last_context_text p) (session_text outs)"
    by auto
  show ?case
  proof (cases e)
    case (Captured v xs)
    then have "last_context_text (fst (step W (p, w) e)) = last_context_text p"
      and "snd (step W (p, w) e) = w"
      by simp_all
    then show ?thesis
      unfolding run_snoc pw using lg ty e0 hd0 hs sf by auto
  next
    case Tick
    let ?p' = "fst (continuous_iteration W p w)"
    let ?w' = "snd (continuous_iteration W p w)"
    have st: "step W (p, w) e = continuous_iteration W p w"
      using Tick by simp
    from continuous_iteration_effect [of W p w]
    consider
      (idle) "last_context_text ?p' = last_context_text p" "?w' = w"
    | (rejected) c where "whisper_log ?w' = whisper_log w @ [c]"
        "call_context_prompt c = context_prompt_of (last_context_text p)"
        "last_context_text ?p' = last_context_text p" "typed ?w' = typed w"
    | (committed) c t where "whisper_log ?w' = whisper_log w @ [c]"
        "call_context_prompt c = context_prompt_of (last_context_text p)"
        "last_context_text ?p' = append_context (last_context_text p) t"
        "typed ?w' = typed w @ [t @ '' '']"
      by blast
    then show ?thesis
    proof cases
      case idle
      then show ?thesis
        unfolding run_snoc pw st using lg ty e0 hd0 hs sf by auto
    next
      case rejected
      have first: "calls = [] \<longrightarrow> call_context_prompt c = None"
      proof
        assume "calls = []"
        then have "outs = []" using e0 by simp
        then have "last_context_text p = []" using sf by (simp add: session_text_def)
        then show "call_context_prompt c = None"
          using rejected(2) by (simp add: context_prompt_of_Nil)
      qed
      have new: "\<forall>h. call_context_prompt c = Some h \<longrightarrow> sublist h (session_text outs)"
      proof (intro allI impI)
        fix h assume "call_context_prompt c = Some h"
        then have "suffix h (last_context_text p)"
          using rejected(2) context_prompt_of_suffix by simp
        from suffix_imp_sublist_append [OF this sf, of "[]"]
        show "sublist h (session_text outs)" by simp
      qed
      have "whisper_log ?w' = whisper_log w0 @ (calls @ [c])"
        using rejected(1) lg by simp
      moreover have "typed ?w' = typed w0 @ outs"
        using rejected(4) ty by simp
      moreover have "calls @ [c] \<noteq> [] \<longrightarrow> call_context_prompt (hd (calls @ [c])) = None"
        using first hd0 by (cases calls) simp_all
      moreover have "\<forall>c' \<in> set (calls @ [c]). \<forall>h. call_context_prompt c' = Some h \<longrightarrow>
                       sublist h (session_text outs)"
        using hs new by auto
      moreover have "suffix (last_context_text ?p') (session_text outs)"
        using rejected(3) sf by simp
      ultimately show ?thesis
        unfolding run_snoc pw st
        by (intro exI [of _ "calls @ [c]"] exI [of _ outs]) simp
    next
      case committed
      let ?outs' = "outs @ [t @ '' '']"
      have stx: "session_text ?outs' = session_text outs @ '' '' @ t"
        by (rule session_text_snoc)
      have first: "calls = [] \<longrightarrow> call_context_prompt c = None"
      proof
        assume "calls = []"
        then have "outs = []" using e0 by simp
        then have "last_context_text p = []" using sf by (simp add: session_text_def)
        then show "call_context_prompt c = None"
          using committed(2) by (simp add: context_prompt_of_Nil)
      qed
      have new: "\<forall>h. call_context_prompt c = Some h \<longrightarrow> sublist h (session_text ?outs')"
      proof (intro allI impI)
        fix h assume "call_context_prompt c = Some h"
        then have "suffix h (last_context_text p)"
          using committed(2) context_prompt_of_suffix by simp
        from suffix_imp_sublist_append [OF this sf, of "'' '' @ t"]
        show "sublist h (session_text ?outs')" unfolding stx .
      qed
      have old: "\<forall>c' \<in> set calls. \<forall>h. call_context_prompt c' = Some h \<longrightarrow>
                   sublist h (session_text ?outs')"
        using hs unfolding stx by (auto intro: sublist_append_right)
      have "suffix (append_context (last_context_text p) t) (last_context_text p @ '' '' @ t)"
        by (rule append_context_suffix)
      moreover have "suffix (last_context_text p @ '' '' @ t) (session_text outs @ '' '' @ t)"
        using sf by (simp add: suffix_def) 
      ultimately have sf': "suffix (last_context_text ?p') (session_text ?outs')"
        unfolding stx committed(3) by (rule suffix_order.trans)
      have "whisper_log ?w' = whisper_log w0 @ (calls @ [c])"
        using committed(1) lg by simp
      moreover have "typed ?w' = typed w0 @ ?outs'"
        using committed(4) ty by simp
      moreover have "calls @ [c] \<noteq> [] \<longrightarrow> call_context_prompt (hd (calls @ [c])) = None"
        using first hd0 by (cases calls) simp_all
      moreover have "\<forall>c' \<in> set (calls @ [c]). \<forall>h. call_context_prompt c' = Some h \<longrightarrow>
                       sublist h (session_text ?outs')"
        using old new by auto
      ultimately show ?thesis
        unfolding run_snoc pw st using sf'
        by (intro exI [of _ "calls @ [c]"] exI [of _ ?outs']) simp
    qed
  qed
qed


text \<open>
  C10. A call of \<^verbatim>\<open>start_recording\<close> on a pipeline that is not recording empties the
  rolling context, so the session that follows does not depend on the context the pipeline
  had before: started with any other context, it runs to the same states. Over any
  sequence of captures and monitor passes after the start, the first recognizer call of the
  session has no context prompt, every context prompt of the session is a contiguous part
  of the text committed so far in the session (each committed text with a space in front),
  and the rolling context is a suffix of that text.
\<close>

theorem context_fresh_per_session:
  assumes "\<not> recording p0"
  shows "last_context_text (start_recording p0 pa_ok) = []
       \<and> start_recording (p0\<lparr>last_context_text := c\<rparr>) pa_ok = start_recording p0 pa_ok
       \<and> run W (start_recording (p0\<lparr>last_context_text := c\<rparr>) pa_ok, w0) evs =
           run W (start_recording p0 pa_ok, w0) evs
       \<and> (let p = fst (run W (start_recording p0 pa_ok, w0) evs);
               w = snd (run W (start_recording p0 pa_ok, w0) evs);
               calls = drop (length (whisper_log w0)) (whisper_log w);
               outs = drop (length (typed w0)) (typed w)
           in whisper_log w = whisper_log w0 @ calls
              \<and> typed w = typed w0 @ outs
              \<and> (calls \<noteq> [] \<longrightarrow> call_context_prompt (hd calls) = None)
              \<and> (\<forall>call \<in> set calls. \<forall>h. call_context_prompt call = Some h \<longrightarrow>
                     sublist h (session_text outs))
              \<and> suffix (last_context_text p) (session_text outs))"
proof -
  have clr: "last_context_text (start_recording p0 pa_ok) = []"
    using assms by (rule start_recording_clears)
  have fg: "start_recording (p0\<lparr>last_context_text := c\<rparr>) pa_ok = start_recording p0 pa_ok"
    using assms by (rule start_recording_forgets)
  from session_invariant [OF clr, of W w0 evs]
  obtain calls outs where
    lg: "whisper_log (snd (run W (start_recording p0 pa_ok, w0) evs)) = whisper_log w0 @ calls" and
    ty: "typed (snd (run W (start_recording p0 pa_ok, w0) evs)) = typed w0 @ outs" and
    hd0: "calls \<noteq> [] \<longrightarrow> call_context_prompt (hd calls) = None" and
    hs: "\<forall>call \<in> set calls. \<forall>h. call_context_prompt call = Some h \<longrightarrow> sublist h (session_text outs)" and
    sf: "suffix (last_context_text (fst (run W (start_recording p0 pa_ok, w0) evs))) (session_text outs)"
    by blast
  have d1: "drop (length (whisper_log w0))
              (whisper_log (snd (run W (start_recording p0 pa_ok, w0) evs))) = calls"
    by (simp add: lg)
  have d2: "drop (length (typed w0)) (typed (snd (run W (start_recording p0 pa_ok, w0) evs))) = outs"
    by (simp add: ty)
  show ?thesis
    unfolding Let_def d1 d2 fg
    using clr lg ty hd0 hs sf by simp
qed

text \<open>
  A pipeline that still holds the context of an earlier session: the new session starts
  with an empty context and its three recognizer calls get no prompt, then
  \<open>hello world\<close>, then \<open>hello world foo bar\<close> (each with its leading space).
\<close>

theorem context_fresh_per_session_witness:
  "recording (pipeline_loaded\<lparr>last_context_text := ''words of an earlier session''\<rparr>) = False
   \<and> last_context_text
        (start_recording (pipeline_loaded\<lparr>last_context_text := ''words of an earlier session''\<rparr>) True) = []
   \<and> map call_context_prompt
        (whisper_log (snd (run whisper_dictation
           (start_recording (pipeline_loaded\<lparr>last_context_text := ''words of an earlier session''\<rparr>) True,
            world_init)
           [Captured (reset (vad AudioEngine_open)) (replicate 72000 (1 / 10)), Tick, Tick, Tick,
            Captured (reset (vad AudioEngine_open)) (replicate 72000 (1 / 10)), Tick,
            Captured (reset (vad AudioEngine_open)) (replicate 72000 (1 / 10)), Tick]))) =
       [None, Some '' hello world'', Some '' hello world foo bar'']"
proof -
  have r: "\<not> recording pipeline_loaded"
    by (simp add: pipeline_loaded_def)
  from context_fresh_per_session [OF r, of True "''words of an earlier session''" whisper_dictation world_init
          "[Captured (reset (vad AudioEngine_open)) (replicate 72000 (1 / 10)), Tick, Tick, Tick,
            Captured (reset (vad AudioEngine_open)) (replicate 72000 (1 / 10)), Tick,
            Captured (reset (vad AudioEngine_open)) (replicate 72000 (1 / 10)), Tick]"]
  have "last_context_text (start_recording pipeline_loaded True) = []"
    and "start_recording (pipeline_loaded\<lparr>last_context_text := ''words of an earlier session''\<rparr>) True =
           start_recording pipeline_loaded True"
    by blast+
  then show ?thesis
    using r dictation_run by simp
qed

end
